theory Spec2Isabelle
  imports Main "HOL-Library.Word"
begin

section \<open>MetaVote: the poll registry and tally engine\<close>

text \<open>
  A shallow embedding of the contract \<^verbatim>\<open>MetaVote\<close>: the Solidity text that follows
  the test suite in \<^verbatim>\<open>src/test/MetaVote.ts\<close>, lines 107 to 335. Line numbers below
  are those of that file.

  \<^item> \<^verbatim>\<open>uint256\<close> values (timestamps, poll identifiers, loop counters) are \<open>nat\<close>: the
    contract only compares them, and the one addition, \<^verbatim>\<open>i++\<close>, is on a counter
    bounded by an array length, so no wrap-around is ever taken.
  \<^item> \<^verbatim>\<open>uint32\<close> and the hidden value of an \<^verbatim>\<open>euint32\<close> are \<open>32 word\<close>: the
    homomorphic addition is addition modulo \<open>2 ^ 32\<close>.
  \<^item> A \<^verbatim>\<open>revert\<close> is a result \<open>Inl e\<close>: it carries no successor state, as the EVM
    discards every write of a reverted call.
\<close>

subsection \<open>Basic types\<close>

type_synonym address = "160 word"
type_synonym bytes = "8 word list"
type_synonym uint32 = "32 word"
type_synonym externalEuint32 = "256 word"

text \<open>The custom errors of the contract, then the failures of what it calls: the two
  proof checks of the FHE library and the array-bounds panic of the EVM.\<close>

datatype error =
    InvalidPoll
  | InvalidWindow
  | InvalidOptions
  | PollNotActive
  | PollAlreadyFinalized
  | PollNotFinished
  | AlreadyVoted
  | MismatchedResults
  | ResultsAlreadyPublished
  | InvalidInputProof
  | InvalidDecryptionProof
  | Panic

text \<open>The context of one call: \<^verbatim>\<open>msg.sender\<close> and \<^verbatim>\<open>block.timestamp\<close>.\<close>

record ctx =
  msg_sender :: address
  block_timestamp :: nat

subsection \<open>The FHE library\<close>

text \<open>
  Modelled from the spec: the library \<^verbatim>\<open>@fhevm/solidity/lib/FHE.sol\<close> is imported by
  the contract and is not part of the repository. Section 6 of the specification
  describes it as two capabilities. An encrypted integer is represented by the value it
  hides (\<open>clear\<close>), with the two permissions the contract sets on it: readable by the
  contract itself (\<open>allowedThis\<close>) and eligible for public decryption
  (\<open>publiclyDecryptable\<close>). The contract never reads \<open>clear\<close>: it only passes
  encrypted values to the operations below.
\<close>

record euint32 =
  clear :: uint32
  allowedThis :: bool
  publiclyDecryptable :: bool

datatype ebool = Ebool (clearBool: bool)

text \<open>
  Modelled from the spec: the two cryptographic checks are parameters of the model.
  \<open>inputVerifier h p a\<close> is what importing the external handle \<open>h\<close> with input proof
  \<open>p\<close> for caller \<open>a\<close> gives: \<open>None\<close> when the proof is rejected, otherwise
  the hidden value. \<open>kmsVerifier hs cs p\<close> says whether the proof \<open>p\<close> attests the
  clear values \<open>cs\<close> for the handles \<open>hs\<close>.
\<close>

record fhe =
  inputVerifier :: "externalEuint32 \<Rightarrow> bytes \<Rightarrow> address \<Rightarrow> uint32 option"
  kmsVerifier :: "euint32 list \<Rightarrow> uint32 list \<Rightarrow> bytes \<Rightarrow> bool"

text \<open>Modelled from the spec: \<^verbatim>\<open>encryptConstant\<close>, a fresh handle for a known value.\<close>

definition FHE_asEuint32 :: "uint32 \<Rightarrow> euint32" where
  "FHE_asEuint32 v = \<lparr>clear = v, allowedThis = False, publiclyDecryptable = False\<rparr>"

text \<open>Modelled from the spec: marks a handle readable by the contract itself.\<close>

definition FHE_allowThis :: "euint32 \<Rightarrow> euint32" where
  "FHE_allowThis e = e\<lparr>allowedThis := True\<rparr>"

text \<open>Modelled from the spec: \<^verbatim>\<open>equals\<close>, \<^verbatim>\<open>add\<close> and \<^verbatim>\<open>select\<close>, each giving a
  fresh handle; \<^verbatim>\<open>add\<close> on \<^verbatim>\<open>euint32\<close> is addition modulo \<open>2 ^ 32\<close>.\<close>

definition FHE_eq :: "euint32 \<Rightarrow> euint32 \<Rightarrow> ebool" where
  "FHE_eq a b = Ebool (clear a = clear b)"

definition FHE_add :: "euint32 \<Rightarrow> euint32 \<Rightarrow> euint32" where
  "FHE_add a b = \<lparr>clear = clear a + clear b, allowedThis = False, publiclyDecryptable = False\<rparr>"

definition FHE_select :: "ebool \<Rightarrow> euint32 \<Rightarrow> euint32 \<Rightarrow> euint32" where
  "FHE_select c a b =
     \<lparr>clear = (if clearBool c then clear a else clear b),
      allowedThis = False, publiclyDecryptable = False\<rparr>"

text \<open>Modelled from the spec: \<^verbatim>\<open>markDecryptable\<close>; the value does not change.\<close>

definition FHE_makePubliclyDecryptable :: "euint32 \<Rightarrow> euint32" where
  "FHE_makePubliclyDecryptable e = e\<lparr>publiclyDecryptable := True\<rparr>"

text \<open>Modelled from the spec: \<^verbatim>\<open>importEncrypted\<close>; fails the caller when the proof
  is invalid.\<close>

definition FHE_fromExternal :: "fhe \<Rightarrow> ctx \<Rightarrow> externalEuint32 \<Rightarrow> bytes \<Rightarrow> error + euint32" where
  "FHE_fromExternal env c h p =
     (case inputVerifier env h p (msg_sender c) of
        None \<Rightarrow> Inl InvalidInputProof
      | Some v \<Rightarrow> Inr \<lparr>clear = v, allowedThis = False, publiclyDecryptable = False\<rparr>)"

text \<open>Modelled from the spec: \<^verbatim>\<open>checkProof\<close>; pure validation that fails closed.\<close>

definition FHE_checkSignatures :: "fhe \<Rightarrow> euint32 list \<Rightarrow> uint32 list \<Rightarrow> bytes \<Rightarrow> error + unit" where
  "FHE_checkSignatures env hs cs p =
     (if kmsVerifier env hs cs p then Inr () else Inl InvalidDecryptionProof)"

subsection \<open>Contract state\<close>

record Poll =
  title :: string
  options :: "string list"
  tallies :: "euint32 list"
  startTime :: nat
  endTime :: nat
  creator :: address
  finalized :: bool
  resultsPublished :: bool
  publicResults :: "uint32 list"
  publicDecryptionProof :: bytes

datatype event =
    PollCreated nat string nat nat
  | VoteSubmitted nat address
  | PollFinalized nat
  | ResultsPublished nat "uint32 list"

text \<open>The storage of the contract (\<open>polls\<close> and \<open>votes\<close>, a mapping whose absent
  entries read as \<open>False\<close>) and the log of the events it has emitted.\<close>

record MetaVote =
  polls :: "Poll list"
  votes :: "nat \<Rightarrow> address \<Rightarrow> bool"
  events :: "event list"

definition deployed :: MetaVote where
  "deployed = \<lparr>polls = [], votes = (\<lambda>_ _. False), events = []\<rparr>"

text \<open>The element that \<^verbatim>\<open>polls.push()\<close> appends: every field is zero.\<close>

definition emptyPoll :: Poll where
  "emptyPoll =
     \<lparr>title = [], options = [], tallies = [], startTime = 0, endTime = 0, creator = 0,
      finalized = False, resultsPublished = False, publicResults = [],
      publicDecryptionProof = []\<rparr>"

subsection \<open>createPoll (lines 160 to 189)\<close>

text \<open>The loop of lines 181 to 185. Each iteration pushes a label and a fresh encryption
  of 0, then marks \<^verbatim>\<open>poll.tallies[i]\<close> readable by the contract; an index out of range
  is a panic.\<close>

function createPoll_loop :: "string list \<Rightarrow> nat \<Rightarrow> Poll \<Rightarrow> error + Poll" where
  "createPoll_loop opts i poll =
     (if i < length opts then
        (let poll1 = poll\<lparr>options := options poll @ [opts ! i]\<rparr>;
             poll2 = poll1\<lparr>tallies := tallies poll1 @ [FHE_asEuint32 0]\<rparr>
         in if i < length (tallies poll2)
            then createPoll_loop opts (Suc i)
                   (poll2\<lparr>tallies := (tallies poll2)[i := FHE_allowThis (tallies poll2 ! i)]\<rparr>)
            else Inl Panic)
      else Inr poll)"
  by pat_completeness auto
termination
  by (relation "measure (\<lambda>(opts, i, poll). length opts - i)") auto

declare createPoll_loop.simps [simp del]

definition createPoll ::
  "ctx \<Rightarrow> string \<Rightarrow> string list \<Rightarrow> nat \<Rightarrow> nat \<Rightarrow> MetaVote \<Rightarrow> error + (MetaVote \<times> nat)" where
  "createPoll c ttl opts startT endT st =
     (if length opts < 2 \<or> length opts > 4 then Inl InvalidOptions
      else if startT \<ge> endT \<or> endT \<le> block_timestamp c then Inl InvalidWindow
      else
        (let pollId = length (polls st);
             poll = emptyPoll\<lparr>title := ttl, startTime := startT, endTime := endT,
                               creator := msg_sender c\<rparr>
         in case createPoll_loop opts 0 poll of
              Inl e \<Rightarrow> Inl e
            | Inr poll' \<Rightarrow>
                Inr (st\<lparr>polls := polls st @ [poll'],
                        events := events st @ [PollCreated pollId ttl startT endT]\<rparr>,
                     pollId)))"

subsection \<open>castVote (lines 195 to 223)\<close>

text \<open>The loop of lines 215 to 220: it runs over the option labels and rewrites
  \<^verbatim>\<open>poll.tallies[i]\<close> at each index. The four accesses of one iteration are at the
  same index of an array whose length does not change, so one bounds check stands for
  them. The cast \<^verbatim>\<open>uint32(i)\<close> truncates, as \<open>of_nat\<close> does.\<close>

function castVote_loop :: "euint32 \<Rightarrow> nat \<Rightarrow> Poll \<Rightarrow> error + Poll" where
  "castVote_loop choice i poll =
     (if i < length (options poll) then
        (if i < length (tallies poll) then
           (let selected = FHE_eq choice (FHE_asEuint32 (of_nat i));
                incremented = FHE_add (tallies poll ! i) (FHE_asEuint32 1);
                poll1 = poll\<lparr>tallies :=
                          (tallies poll)[i := FHE_select selected incremented (tallies poll ! i)]\<rparr>
            in castVote_loop choice (Suc i)
                 (poll1\<lparr>tallies := (tallies poll1)[i := FHE_allowThis (tallies poll1 ! i)]\<rparr>))
         else Inl Panic)
      else Inr poll)"
  by pat_completeness auto
termination
  by (relation "measure (\<lambda>(choice, i, poll). length (options poll) - i)") auto

declare castVote_loop.simps [simp del]

definition castVote ::
  "fhe \<Rightarrow> ctx \<Rightarrow> nat \<Rightarrow> externalEuint32 \<Rightarrow> bytes \<Rightarrow> MetaVote \<Rightarrow> error + MetaVote" where
  "castVote env c pollId encryptedChoice inputProof st =
     (if pollId \<ge> length (polls st) then Inl InvalidPoll
      else
        (let poll = polls st ! pollId in
         if block_timestamp c < startTime poll \<or> block_timestamp c \<ge> endTime poll
         then Inl PollNotActive
         else if finalized poll then Inl PollAlreadyFinalized
         else if votes st pollId (msg_sender c) then Inl AlreadyVoted
         else
           (let st1 = st\<lparr>votes := (votes st)
                         (pollId := (votes st pollId)(msg_sender c := True))\<rparr>
            in case FHE_fromExternal env c encryptedChoice inputProof of
                 Inl e \<Rightarrow> Inl e
               | Inr choice \<Rightarrow>
                   (case castVote_loop choice 0 poll of
                      Inl e \<Rightarrow> Inl e
                    | Inr poll' \<Rightarrow>
                        Inr (st1\<lparr>polls := (polls st1)[pollId := poll'],
                                 events := events st1 @ [VoteSubmitted pollId (msg_sender c)]\<rparr>)))))"

subsection \<open>finalizePoll (lines 227 to 242)\<close>

text \<open>The loop of lines 237 to 239, then the function; the modifier \<^verbatim>\<open>pollExists\<close>
  (lines 147 to 152) is the first test of every function that carries it.\<close>

function finalizePoll_loop :: "nat \<Rightarrow> Poll \<Rightarrow> Poll" where
  "finalizePoll_loop i poll =
     (if i < length (tallies poll) then
        finalizePoll_loop (Suc i)
          (poll\<lparr>tallies := (tallies poll)[i := FHE_makePubliclyDecryptable (tallies poll ! i)]\<rparr>)
      else poll)"
  by pat_completeness auto
termination
  by (relation "measure (\<lambda>(i, poll). length (tallies poll) - i)") auto

declare finalizePoll_loop.simps [simp del]

definition finalizePoll :: "ctx \<Rightarrow> nat \<Rightarrow> MetaVote \<Rightarrow> error + MetaVote" where
  "finalizePoll c pollId st =
     (if pollId \<ge> length (polls st) then Inl InvalidPoll
      else
        (let poll = polls st ! pollId in
         if block_timestamp c < endTime poll then Inl PollNotFinished
         else if finalized poll then Inl PollAlreadyFinalized
         else
           (let poll' = finalizePoll_loop 0 (poll\<lparr>finalized := True\<rparr>)
            in Inr (st\<lparr>polls := (polls st)[pollId := poll'],
                       events := events st @ [PollFinalized pollId]\<rparr>))))"

subsection \<open>publishResults (lines 248 to 276)\<close>

text \<open>The loop of lines 264 to 266 copies the handles of the tallies into a new array
  of the same length, which starts as zeros.\<close>

function handles_loop :: "Poll \<Rightarrow> nat \<Rightarrow> euint32 list \<Rightarrow> euint32 list" where
  "handles_loop poll i handles =
     (if i < length (tallies poll) then
        handles_loop poll (Suc i) (handles[i := tallies poll ! i])
      else handles)"
  by pat_completeness auto
termination
  by (relation "measure (\<lambda>(poll, i, handles). length (tallies poll) - i)") auto

declare handles_loop.simps [simp del]

definition publishResults ::
  "fhe \<Rightarrow> ctx \<Rightarrow> nat \<Rightarrow> uint32 list \<Rightarrow> bytes \<Rightarrow> MetaVote \<Rightarrow> error + MetaVote" where
  "publishResults env c pollId clearTallies decryptionProof st =
     (if pollId \<ge> length (polls st) then Inl InvalidPoll
      else
        (let poll = polls st ! pollId in
         if \<not> finalized poll then Inl PollNotFinished
         else if resultsPublished poll then Inl ResultsAlreadyPublished
         else if length clearTallies \<noteq> length (options poll) then Inl MismatchedResults
         else
           (let handles = handles_loop poll 0
                            (replicate (length (tallies poll)) (FHE_asEuint32 0))
            in case FHE_checkSignatures env handles clearTallies decryptionProof of
                 Inl e \<Rightarrow> Inl e
               | Inr _ \<Rightarrow>
                   Inr (st\<lparr>polls := (polls st)[pollId :=
                                      poll\<lparr>publicResults := clearTallies,
                                           resultsPublished := True,
                                           publicDecryptionProof := decryptionProof\<rparr>],
                           events := events st @ [ResultsPublished pollId clearTallies]\<rparr>))))"

subsection \<open>Read operations (lines 279 to 334)\<close>

definition getPollCount :: "MetaVote \<Rightarrow> nat" where
  "getPollCount st = length (polls st)"

definition getPollSummary ::
  "nat \<Rightarrow> MetaVote \<Rightarrow> error + (string \<times> nat \<times> nat \<times> nat \<times> bool \<times> bool \<times> address)" where
  "getPollSummary pollId st =
     (if pollId \<ge> length (polls st) then Inl InvalidPoll
      else
        (let poll = polls st ! pollId
         in Inr (title poll, startTime poll, endTime poll, length (options poll),
                 finalized poll, resultsPublished poll, creator poll)))"

definition getPollOptions :: "nat \<Rightarrow> MetaVote \<Rightarrow> error + string list" where
  "getPollOptions pollId st =
     (if pollId \<ge> length (polls st) then Inl InvalidPoll
      else Inr (options (polls st ! pollId)))"

definition getEncryptedTallies :: "nat \<Rightarrow> MetaVote \<Rightarrow> error + euint32 list" where
  "getEncryptedTallies pollId st =
     (if pollId \<ge> length (polls st) then Inl InvalidPoll
      else Inr (tallies (polls st ! pollId)))"

definition getPublishedResults :: "nat \<Rightarrow> MetaVote \<Rightarrow> error + (uint32 list \<times> bytes)" where
  "getPublishedResults pollId st =
     (if pollId \<ge> length (polls st) then Inl InvalidPoll
      else
        (let poll = polls st ! pollId
         in Inr (publicResults poll, publicDecryptionProof poll)))"

definition hasUserVoted :: "nat \<Rightarrow> address \<Rightarrow> MetaVote \<Rightarrow> error + bool" where
  "hasUserVoted pollId user st =
     (if pollId \<ge> length (polls st) then Inl InvalidPoll
      else Inr (votes st pollId user))"

subsection \<open>Transactions and reachable states\<close>

text \<open>The state after a call: a reverted call leaves the state as it was.\<close>

definition after :: "MetaVote \<Rightarrow> error + MetaVote \<Rightarrow> MetaVote" where
  "after st r = (case r of Inl e \<Rightarrow> st | Inr st' \<Rightarrow> st')"

text \<open>One successful state-changing call, made in the context \<open>c\<close>.\<close>

inductive call :: "fhe \<Rightarrow> ctx \<Rightarrow> MetaVote \<Rightarrow> MetaVote \<Rightarrow> bool" for env :: fhe and c :: ctx where
  call_create: "createPoll c ttl opts startT endT st = Inr (st', pollId) \<Longrightarrow> call env c st st'"
| call_vote: "castVote env c pollId h p st = Inr st' \<Longrightarrow> call env c st st'"
| call_finalize: "finalizePoll c pollId st = Inr st' \<Longrightarrow> call env c st st'"
| call_publish: "publishResults env c pollId cs p st = Inr st' \<Longrightarrow> call env c st st'"

text \<open>One successful call by any sender at any time; its reflexive transitive closure
  \<open>rtranclp (step env)\<close> is any sequence of such calls.\<close>

definition step :: "fhe \<Rightarrow> MetaVote \<Rightarrow> MetaVote \<Rightarrow> bool" where
  "step env st st' \<longleftrightarrow> (\<exists>c. call env c st st')"

text \<open>The states reachable from deployment by any sequence of calls, each with any
  sender and any timestamp.\<close>

inductive reachable :: "fhe \<Rightarrow> MetaVote \<Rightarrow> bool" for env :: fhe where
  reachable_deployed: "reachable env deployed"
| reachable_call: "reachable env st \<Longrightarrow> call env c st st' \<Longrightarrow> reachable env st'"

text \<open>The same with a clock: \<open>timed_reachable env t st\<close> says that \<open>st\<close> is reachable
  at time \<open>t\<close> when the time never decreases and every call is made at the current
  time.\<close>

inductive timed_reachable :: "fhe \<Rightarrow> nat \<Rightarrow> MetaVote \<Rightarrow> bool" for env :: fhe where
  timed_deployed: "timed_reachable env t deployed"
| timed_tick: "timed_reachable env t st \<Longrightarrow> t \<le> t' \<Longrightarrow> timed_reachable env t' st"
| timed_call: "timed_reachable env t st \<Longrightarrow> block_timestamp c = t \<Longrightarrow> call env c st st'
                 \<Longrightarrow> timed_reachable env t st'"

subsection \<open>The scenario of the test suite\<close>

text \<open>A sequence of votes on one poll, each with its own caller, handle and proof; it
  stops at the first call that reverts.\<close>

fun castVotes ::
  "fhe \<Rightarrow> nat \<Rightarrow> (ctx \<times> externalEuint32 \<times> bytes) list \<Rightarrow> MetaVote \<Rightarrow> error + MetaVote" where
  "castVotes env pollId [] st = Inr st"
| "castVotes env pollId ((c, h, p) # vs) st =
     (case castVote env c pollId h p st of
        Inl e \<Rightarrow> Inl e
      | Inr st' \<Rightarrow> castVotes env pollId vs st')"

text \<open>The value that the vote \<open>(c, h, p)\<close> hides, when its proof is valid.\<close>

definition hiddenChoice :: "fhe \<Rightarrow> ctx \<times> externalEuint32 \<times> bytes \<Rightarrow> uint32 option" where
  "hiddenChoice env v = (case v of (c, h, p) \<Rightarrow> inputVerifier env h p (msg_sender c))"

text \<open>The specification's expected result: the one-hot vector of a choice among \<open>n\<close>
  options, and the sum of the one-hot vectors of a list of choices.\<close>

definition onehot :: "nat \<Rightarrow> nat \<Rightarrow> uint32 list" where
  "onehot n c = map (\<lambda>i. if i = c then 1 else 0) [0..<n]"

definition onehot_sum :: "nat \<Rightarrow> nat list \<Rightarrow> uint32 list" where
  "onehot_sum n cs = fold (\<lambda>c acc. map2 (+) acc (onehot n c)) cs (replicate n 0)"

text \<open>The mock of the test environment: a handle carries its value in the clear, and
  a proof is valid when it is not empty (and, for a decryption, when the clear values
  are those of the handles).\<close>

definition mock :: fhe where
  "mock = \<lparr>inputVerifier = (\<lambda>h p a. if p = [] then None else Some (ucast h)),
           kmsVerifier = (\<lambda>hs cs p. p \<noteq> [] \<and> cs = map clear hs)\<rparr>"

subsection \<open>Invariants\<close>

text \<open>What holds of every poll of a reachable state.\<close>

definition poll_ok :: "Poll \<Rightarrow> bool" where
  "poll_ok p \<longleftrightarrow>
     2 \<le> length (options p) \<and> length (options p) \<le> 4 \<and>
     length (tallies p) = length (options p) \<and>
     startTime p < endTime p \<and>
     (resultsPublished p \<longrightarrow> finalized p) \<and>
     (resultsPublished p \<longrightarrow> length (publicResults p) = length (options p)) \<and>
     (\<not> resultsPublished p \<longrightarrow> publicResults p = [] \<and> publicDecryptionProof p = [])"

definition state_ok :: "MetaVote \<Rightarrow> bool" where
  "state_ok st \<longleftrightarrow> (\<forall>p \<in> set (polls st). poll_ok p)"

text \<open>A receipt is only ever held for an existing poll.\<close>

definition receipts_ok :: "MetaVote \<Rightarrow> bool" where
  "receipts_ok st \<longleftrightarrow> (\<forall>pollId a. votes st pollId a \<longrightarrow> pollId < length (polls st))"

text \<open>With a clock that never goes back, a finalized poll is past its end.\<close>

definition ended_ok :: "nat \<Rightarrow> MetaVote \<Rightarrow> bool" where
  "ended_ok t st \<longleftrightarrow> (\<forall>p \<in> set (polls st). finalized p \<longrightarrow> endTime p \<le> t)"

text \<open>What one iteration of the loop of \<^verbatim>\<open>castVote\<close> stores at index \<open>i\<close>.\<close>

definition voteCell :: "euint32 \<Rightarrow> nat \<Rightarrow> euint32 \<Rightarrow> euint32" where
  "voteCell choice i t =
     FHE_allowThis
       (FHE_select (FHE_eq choice (FHE_asEuint32 (of_nat i))) (FHE_add t (FHE_asEuint32 1)) t)"

subsection \<open>The effect of each operation on its poll\<close>

text \<open>The poll that \<^verbatim>\<open>createPoll\<close> appends, and what \<^verbatim>\<open>castVote\<close>, \<^verbatim>\<open>finalizePoll\<close> and
  \<^verbatim>\<open>publishResults\<close> make of the poll they are called on; the lemmas of the next
  sections show that the code computes them.\<close>

definition newPoll :: "ctx \<Rightarrow> string \<Rightarrow> string list \<Rightarrow> nat \<Rightarrow> nat \<Rightarrow> Poll" where
  "newPoll c ttl opts startT endT =
     \<lparr>title = ttl, options = opts,
      tallies = replicate (length opts) (FHE_allowThis (FHE_asEuint32 0)),
      startTime = startT, endTime = endT, creator = msg_sender c,
      finalized = False, resultsPublished = False, publicResults = [],
      publicDecryptionProof = []\<rparr>"

definition votedPoll :: "euint32 \<Rightarrow> Poll \<Rightarrow> Poll" where
  "votedPoll choice poll =
     poll\<lparr>tallies := map (\<lambda>j. if j < length (options poll)
                               then voteCell choice j (tallies poll ! j)
                               else tallies poll ! j) [0..<length (tallies poll)]\<rparr>"

definition finalizedPoll :: "Poll \<Rightarrow> Poll" where
  "finalizedPoll poll =
     poll\<lparr>finalized := True, tallies := map FHE_makePubliclyDecryptable (tallies poll)\<rparr>"

definition publishedPoll :: "uint32 list \<Rightarrow> bytes \<Rightarrow> Poll \<Rightarrow> Poll" where
  "publishedPoll cs dproof poll =
     poll\<lparr>publicResults := cs, resultsPublished := True, publicDecryptionProof := dproof\<rparr>"

subsection \<open>The run of the test suite\<close>

text \<open>The three signers of the test suite and the states that its first test goes
  through: a poll with three options is created at time 100 with the window
  \<open>[102, 402)\<close>, voter A votes for option 1 and voter B for option 2 at time 103, the
  poll is finalized at time 403 and its results are published.\<close>

definition deployer :: address where "deployer = 1"
definition voterA :: address where "voterA = 2"
definition voterB :: address where "voterB = 3"

definition at_time :: "address \<Rightarrow> nat \<Rightarrow> ctx" where
  "at_time a t = \<lparr>msg_sender = a, block_timestamp = t\<rparr>"

definition sampleOptions :: "string list" where
  "sampleOptions = [''Solidity'', ''TypeScript'', ''Rust'']"

definition samplePoll :: Poll where
  "samplePoll = newPoll (at_time deployer 100) ''Favorite language'' sampleOptions 102 402"

definition st_created :: MetaVote where
  "st_created =
     deployed\<lparr>polls := [samplePoll],
              events := [PollCreated 0 ''Favorite language'' 102 402]\<rparr>"

definition st_votedA :: MetaVote where
  "st_votedA =
     st_created\<lparr>votes := (votes st_created)(0 := (votes st_created 0)(voterA := True)),
                polls := [votedPoll (FHE_asEuint32 1) samplePoll],
                events := events st_created @ [VoteSubmitted 0 voterA]\<rparr>"

definition st_votedAB :: MetaVote where
  "st_votedAB =
     st_votedA\<lparr>votes := (votes st_votedA)(0 := (votes st_votedA 0)(voterB := True)),
               polls := [votedPoll (FHE_asEuint32 2) (votedPoll (FHE_asEuint32 1) samplePoll)],
               events := events st_votedA @ [VoteSubmitted 0 voterB]\<rparr>"

definition st_finalized :: MetaVote where
  "st_finalized =
     st_votedAB\<lparr>polls := [finalizedPoll (polls st_votedAB ! 0)],
                events := events st_votedAB @ [PollFinalized 0]\<rparr>"

definition st_published :: MetaVote where
  "st_published =
     st_finalized\<lparr>polls := [publishedPoll [0, 1, 1] [1] (polls st_finalized ! 0)],
                  events := events st_finalized @ [ResultsPublished 0 [0, 1, 1]]\<rparr>"

section \<open>The loops in closed form\<close>

lemma createPoll_loop_eq:
  "length (tallies poll) = i \<Longrightarrow> i \<le> length opts \<Longrightarrow>
   createPoll_loop opts i poll =
     Inr (poll\<lparr>options := options poll @ drop i opts,
               tallies := tallies poll @ replicate (length opts - i) (FHE_allowThis (FHE_asEuint32 0))\<rparr>)"
proof (induction opts i poll rule: createPoll_loop.induct)
  case (1 opts i poll)
  show ?case
  proof (cases "i < length opts")
    case True
    have d: "drop i opts = opts ! i # drop (Suc i) opts"
      using True by (simp add: Cons_nth_drop_Suc)
    have r: "replicate (length opts - i) x = x # replicate (length opts - Suc i) x" for x :: euint32
      using True by (metis Suc_diff_Suc replicate_Suc)
    show ?thesis
      using True "1.prems" "1.IH"[OF True refl refl]
      apply (subst createPoll_loop.simps)
      apply (simp add: Let_def d r nth_append list_update_append)
      done
  next
    case False
    with "1.prems" show ?thesis
      by (subst createPoll_loop.simps) simp
  qed
qed

lemma castVote_loop_step:
  "i < length (options poll) \<Longrightarrow> i < length (tallies poll) \<Longrightarrow>
   castVote_loop choice i poll =
     castVote_loop choice (Suc i)
       (poll\<lparr>tallies := (tallies poll)[i := voteCell choice i (tallies poll ! i)]\<rparr>)"
  by (subst castVote_loop.simps) (simp add: Let_def voteCell_def)

lemma castVote_loop_done:
  "\<not> i < length (options poll) \<Longrightarrow> castVote_loop choice i poll = Inr poll"
  by (subst castVote_loop.simps) simp

lemma castVote_loop_eq:
  "length (options poll) \<le> length (tallies poll) \<Longrightarrow>
   castVote_loop choice i poll =
     Inr (poll\<lparr>tallies := map (\<lambda>j. if i \<le> j \<and> j < length (options poll)
                                      then voteCell choice j (tallies poll ! j)
                                      else tallies poll ! j) [0..<length (tallies poll)]\<rparr>)"
proof (induction "length (options poll) - i" arbitrary: i poll)
  case 0
  then have ge: "\<not> i < length (options poll)" by simp
  then have "map (\<lambda>j. if i \<le> j \<and> j < length (options poll)
                        then voteCell choice j (tallies poll ! j)
                        else tallies poll ! j) [0..<length (tallies poll)] = tallies poll"
    by (intro nth_equalityI) auto
  then show ?case
    by (simp add: castVote_loop_done[OF ge])
next
  case (Suc k)
  then have True: "i < length (options poll)" by simp
  then have lt: "i < length (tallies poll)" using Suc.prems by simp
  let ?p = "poll\<lparr>tallies := (tallies poll)[i := voteCell choice i (tallies poll ! i)]\<rparr>"
  have k: "k = length (options ?p) - Suc i" using Suc.hyps(2) by simp
  have le: "length (options ?p) \<le> length (tallies ?p)" using Suc.prems by simp
  have cells: "map (\<lambda>j. if Suc i \<le> j \<and> j < length (options ?p)
                                    then voteCell choice j (tallies ?p ! j)
                                    else tallies ?p ! j) [0..<length (tallies ?p)]
       = map (\<lambda>j. if i \<le> j \<and> j < length (options poll)
                                    then voteCell choice j (tallies poll ! j)
                                    else tallies poll ! j) [0..<length (tallies poll)]"
    using True lt by (intro nth_equalityI) (auto simp: nth_list_update dest: le_antisym)
  show ?case
    unfolding castVote_loop_step[OF True lt] Suc.hyps(1)[OF k le] cells by simp
qed

lemma finalizePoll_loop_eq:
  "finalizePoll_loop i poll =
     poll\<lparr>tallies := take i (tallies poll) @ map FHE_makePubliclyDecryptable (drop i (tallies poll))\<rparr>"
proof (induction i poll rule: finalizePoll_loop.induct)
  case (1 i poll)
  show ?case
  proof (cases "i < length (tallies poll)")
    case True
    have cells: "take (Suc i) ((tallies poll)[i := FHE_makePubliclyDecryptable (tallies poll ! i)]) @
        map FHE_makePubliclyDecryptable (drop (Suc i) (tallies poll))
      = take i (tallies poll) @ map FHE_makePubliclyDecryptable (drop i (tallies poll))"
      using True by (intro nth_equalityI) (auto simp: nth_append nth_list_update dest: less_antisym)
    show ?thesis
      using True
      by (subst finalizePoll_loop.simps) (simp add: "1.IH"[OF True] cells)
  next
    case False
    then show ?thesis
      by (subst finalizePoll_loop.simps) simp
  qed
qed

lemma handles_loop_eq:
  "length hs = length (tallies poll) \<Longrightarrow>
   handles_loop poll i hs = take i hs @ drop i (tallies poll)"
proof (induction poll i hs rule: handles_loop.induct)
  case (1 poll i hs)
  show ?case
  proof (cases "i < length (tallies poll)")
    case True
    have cells: "take (Suc i) (hs[i := tallies poll ! i]) @ drop (Suc i) (tallies poll)
       = take i hs @ drop i (tallies poll)"
      using True "1.prems"
      by (intro nth_equalityI) (auto simp: nth_append nth_list_update dest: less_antisym)
    show ?thesis
      using True "1.prems"
      by (subst handles_loop.simps) (simp add: "1.IH"[OF True] cells)
  next
    case False
    then show ?thesis
      using "1.prems" by (subst handles_loop.simps) simp
  qed
qed


section \<open>The operations in closed form\<close>

lemma createPoll_Inr:
  "2 \<le> length opts \<Longrightarrow> length opts \<le> 4 \<Longrightarrow> startT < endT \<Longrightarrow> block_timestamp c < endT \<Longrightarrow>
   createPoll c ttl opts startT endT st =
     Inr (st\<lparr>polls := polls st @ [newPoll c ttl opts startT endT],
             events := events st @ [PollCreated (length (polls st)) ttl startT endT]\<rparr>,
          length (polls st))"
  by (simp add: createPoll_def Let_def createPoll_loop_eq emptyPoll_def newPoll_def)

lemma createPoll_Inr_iff:
  "createPoll c ttl opts startT endT st = Inr r \<longleftrightarrow>
     2 \<le> length opts \<and> length opts \<le> 4 \<and> startT < endT \<and> block_timestamp c < endT \<and>
     r = (st\<lparr>polls := polls st @ [newPoll c ttl opts startT endT],
             events := events st @ [PollCreated (length (polls st)) ttl startT endT]\<rparr>,
          length (polls st))"
proof (cases "2 \<le> length opts \<and> length opts \<le> 4 \<and> startT < endT \<and> block_timestamp c < endT")
  case True
  then show ?thesis by (auto simp: createPoll_Inr)
next
  case False
  then show ?thesis by (auto simp: createPoll_def)
qed

lemma castVote_loop_0:
  "length (options poll) \<le> length (tallies poll) \<Longrightarrow>
   castVote_loop choice 0 poll = Inr (votedPoll choice poll)"
  by (simp add: castVote_loop_eq votedPoll_def)

lemma castVote_Inr:
  assumes "pollId < length (polls st)"
    and "startTime (polls st ! pollId) \<le> block_timestamp c"
    and "block_timestamp c < endTime (polls st ! pollId)"
    and "\<not> finalized (polls st ! pollId)"
    and "\<not> votes st pollId (msg_sender c)"
    and "inputVerifier env h p (msg_sender c) = Some v"
    and "length (options (polls st ! pollId)) \<le> length (tallies (polls st ! pollId))"
  shows "castVote env c pollId h p st =
     Inr (st\<lparr>votes := (votes st)(pollId := (votes st pollId)(msg_sender c := True)),
             polls := (polls st)[pollId := votedPoll (FHE_asEuint32 v) (polls st ! pollId)],
             events := events st @ [VoteSubmitted pollId (msg_sender c)]\<rparr>)"
  using assms
  by (simp add: castVote_def Let_def FHE_fromExternal_def castVote_loop_0 FHE_asEuint32_def)

lemma castVote_InrD:
  assumes "castVote env c pollId h p st = Inr st'"
  shows "pollId < length (polls st) \<and>
     startTime (polls st ! pollId) \<le> block_timestamp c \<and>
     block_timestamp c < endTime (polls st ! pollId) \<and>
     \<not> finalized (polls st ! pollId) \<and>
     \<not> votes st pollId (msg_sender c) \<and>
     (\<exists>v. inputVerifier env h p (msg_sender c) = Some v \<and>
        (\<exists>poll'. castVote_loop (FHE_asEuint32 v) 0 (polls st ! pollId) = Inr poll' \<and>
         st' = st\<lparr>votes := (votes st)(pollId := (votes st pollId)(msg_sender c := True)),
             polls := (polls st)[pollId := poll'],
             events := events st @ [VoteSubmitted pollId (msg_sender c)]\<rparr>))"
  using assms
  by (auto simp: castVote_def Let_def FHE_fromExternal_def FHE_asEuint32_def
           split: if_splits option.splits sum.splits)

lemma finalizePoll_Inr_iff:
  "finalizePoll c pollId st = Inr st' \<longleftrightarrow>
     pollId < length (polls st) \<and> endTime (polls st ! pollId) \<le> block_timestamp c \<and>
     \<not> finalized (polls st ! pollId) \<and>
     st' = st\<lparr>polls := (polls st)[pollId := finalizedPoll (polls st ! pollId)],
              events := events st @ [PollFinalized pollId]\<rparr>"
  by (auto simp: finalizePoll_def Let_def finalizePoll_loop_eq finalizedPoll_def)

lemma handles_all:
  "handles_loop poll 0 (replicate (length (tallies poll)) z) = tallies poll"
  by (simp add: handles_loop_eq)

lemma publishResults_Inr_iff:
  "publishResults env c pollId cs dproof st = Inr st' \<longleftrightarrow>
     pollId < length (polls st) \<and> finalized (polls st ! pollId) \<and>
     \<not> resultsPublished (polls st ! pollId) \<and>
     length cs = length (options (polls st ! pollId)) \<and>
     kmsVerifier env (tallies (polls st ! pollId)) cs dproof \<and>
     st' = st\<lparr>polls := (polls st)[pollId := publishedPoll cs dproof (polls st ! pollId)],
              events := events st @ [ResultsPublished pollId cs]\<rparr>"
  by (auto simp: publishResults_def Let_def handles_all FHE_checkSignatures_def publishedPoll_def)


section \<open>Invariants of the reachable states\<close>

lemma poll_ok_newPoll:
  "2 \<le> length opts \<Longrightarrow> length opts \<le> 4 \<Longrightarrow> startT < endT \<Longrightarrow>
   poll_ok (newPoll c ttl opts startT endT)"
  by (simp add: poll_ok_def newPoll_def)

lemma poll_ok_votedPoll: "poll_ok p \<Longrightarrow> poll_ok (votedPoll choice p)"
  by (simp add: poll_ok_def votedPoll_def)

lemma poll_ok_finalizedPoll: "poll_ok p \<Longrightarrow> poll_ok (finalizedPoll p)"
  by (simp add: poll_ok_def finalizedPoll_def)

lemma poll_ok_publishedPoll:
  "poll_ok p \<Longrightarrow> finalized p \<Longrightarrow> length cs = length (options p) \<Longrightarrow>
   poll_ok (publishedPoll cs dproof p)"
  by (simp add: poll_ok_def publishedPoll_def)

lemma state_ok_nth: "state_ok st \<Longrightarrow> i < length (polls st) \<Longrightarrow> poll_ok (polls st ! i)"
  by (simp add: state_ok_def)

lemma state_ok_update:
  "state_ok st \<Longrightarrow> poll_ok p \<Longrightarrow> polls st' = (polls st)[i := p] \<Longrightarrow> state_ok st'"
  unfolding state_ok_def by (auto dest!: subsetD[OF set_update_subset_insert])

lemma castVote_Inr_ok:
  assumes ok: "state_ok st" and r: "castVote env c pollId h p st = Inr st'"
  shows "\<exists>v. inputVerifier env h p (msg_sender c) = Some v \<and>
     st' = st\<lparr>votes := (votes st)(pollId := (votes st pollId)(msg_sender c := True)),
             polls := (polls st)[pollId := votedPoll (FHE_asEuint32 v) (polls st ! pollId)],
             events := events st @ [VoteSubmitted pollId (msg_sender c)]\<rparr>"
proof -
  from castVote_InrD[OF r] obtain v where
    pre: "pollId < length (polls st)" "startTime (polls st ! pollId) \<le> block_timestamp c"
      "block_timestamp c < endTime (polls st ! pollId)" "\<not> finalized (polls st ! pollId)"
      "\<not> votes st pollId (msg_sender c)" and v: "inputVerifier env h p (msg_sender c) = Some v"
    by blast
  have len: "length (options (polls st ! pollId)) \<le> length (tallies (polls st ! pollId))"
    using state_ok_nth[OF ok pre(1)] by (simp add: poll_ok_def)
  show ?thesis
    using castVote_Inr[OF pre v len] r v by simp
qed

lemma call_state_ok:
  assumes "call env c st st'" and ok: "state_ok st"
  shows "state_ok st'"
  using assms(1)
proof cases
  case (call_create ttl opts startT endT pollId)
  then show ?thesis
    using ok by (auto simp: createPoll_Inr_iff state_ok_def poll_ok_newPoll)
next
  case (call_vote pollId h p)
  from castVote_InrD[OF call_vote] have lt: "pollId < length (polls st)" by blast
  from castVote_Inr_ok[OF ok call_vote] obtain v where
    "polls st' = (polls st)[pollId := votedPoll (FHE_asEuint32 v) (polls st ! pollId)]"
    by auto
  then show ?thesis
    using ok lt by (blast intro: state_ok_update poll_ok_votedPoll state_ok_nth)
next
  case (call_finalize pollId)
  then have "pollId < length (polls st)"
    and "polls st' = (polls st)[pollId := finalizedPoll (polls st ! pollId)]"
    by (auto simp: finalizePoll_Inr_iff)
  then show ?thesis
    using ok by (blast intro: state_ok_update poll_ok_finalizedPoll state_ok_nth)
next
  case (call_publish pollId cs p)
  then have "pollId < length (polls st)" "finalized (polls st ! pollId)"
    "length cs = length (options (polls st ! pollId))"
    and "polls st' = (polls st)[pollId := publishedPoll cs p (polls st ! pollId)]"
    by (auto simp: publishResults_Inr_iff)
  then show ?thesis
    using ok by (blast intro: state_ok_update poll_ok_publishedPoll state_ok_nth)
qed

lemma reachable_state_ok: "reachable env st \<Longrightarrow> state_ok st"
proof (induction rule: reachable.induct)
  case reachable_deployed
  show ?case by (simp add: state_ok_def deployed_def)
next
  case (reachable_call st c st')
  then show ?case by (blast intro: call_state_ok)
qed

lemma timed_reachable_reachable: "timed_reachable env t st \<Longrightarrow> reachable env st"
  by (induction rule: timed_reachable.induct) (auto intro: reachable.intros)


lemma votedPoll_fields [simp]:
  "finalized (votedPoll ch p) = finalized p"
  "resultsPublished (votedPoll ch p) = resultsPublished p"
  "endTime (votedPoll ch p) = endTime p"
  "startTime (votedPoll ch p) = startTime p"
  "options (votedPoll ch p) = options p"
  "publicResults (votedPoll ch p) = publicResults p"
  "publicDecryptionProof (votedPoll ch p) = publicDecryptionProof p"
  "length (tallies (votedPoll ch p)) = length (tallies p)"
  by (simp_all add: votedPoll_def)

lemma finalizedPoll_fields [simp]:
  "finalized (finalizedPoll p) = True"
  "resultsPublished (finalizedPoll p) = resultsPublished p"
  "endTime (finalizedPoll p) = endTime p"
  "startTime (finalizedPoll p) = startTime p"
  "options (finalizedPoll p) = options p"
  "publicResults (finalizedPoll p) = publicResults p"
  "publicDecryptionProof (finalizedPoll p) = publicDecryptionProof p"
  "tallies (finalizedPoll p) = map FHE_makePubliclyDecryptable (tallies p)"
  by (simp_all add: finalizedPoll_def)

lemma publishedPoll_fields [simp]:
  "finalized (publishedPoll cs dproof p) = finalized p"
  "resultsPublished (publishedPoll cs dproof p) = True"
  "endTime (publishedPoll cs dproof p) = endTime p"
  "startTime (publishedPoll cs dproof p) = startTime p"
  "options (publishedPoll cs dproof p) = options p"
  "publicResults (publishedPoll cs dproof p) = cs"
  "publicDecryptionProof (publishedPoll cs dproof p) = dproof"
  "tallies (publishedPoll cs dproof p) = tallies p"
  by (simp_all add: publishedPoll_def)

text \<open>A call keeps every existing poll at its index and never clears a flag or a
  receipt; the window and the option labels of a poll never change.\<close>

lemma call_mono:
  assumes "call env c st st'" and ok: "state_ok st" and i: "i < length (polls st)"
  shows "i < length (polls st') \<and>
         (finalized (polls st ! i) \<longrightarrow> finalized (polls st' ! i)) \<and>
         (resultsPublished (polls st ! i) \<longrightarrow> resultsPublished (polls st' ! i)) \<and>
         startTime (polls st' ! i) = startTime (polls st ! i) \<and>
         endTime (polls st' ! i) = endTime (polls st ! i) \<and>
         options (polls st' ! i) = options (polls st ! i) \<and>
         (votes st i a \<longrightarrow> votes st' i a)"
  using assms(1)
proof cases
  case (call_create ttl opts startT endT pollId)
  then show ?thesis
    using i by (auto simp: createPoll_Inr_iff nth_append)
next
  case (call_vote pollId h p)
  from castVote_InrD[OF call_vote] have lt: "pollId < length (polls st)" by blast
  from castVote_Inr_ok[OF ok call_vote] show ?thesis
    using i lt by (auto simp: nth_list_update)
next
  case (call_finalize pollId)
  then show ?thesis
    using i by (auto simp: finalizePoll_Inr_iff nth_list_update)
next
  case (call_publish pollId cs p)
  then show ?thesis
    using i by (auto simp: publishResults_Inr_iff nth_list_update)
qed

lemma ended_ok_mono: "ended_ok t st \<Longrightarrow> t \<le> t' \<Longrightarrow> ended_ok t' st"
  unfolding ended_ok_def by (meson le_trans)

lemma ended_ok_nth:
  "ended_ok t st \<Longrightarrow> i < length (polls st) \<Longrightarrow> finalized (polls st ! i) \<Longrightarrow>
   endTime (polls st ! i) \<le> t"
  by (simp add: ended_ok_def)

lemma ended_ok_update:
  "ended_ok t st \<Longrightarrow> (finalized p \<longrightarrow> endTime p \<le> t) \<Longrightarrow> polls st' = (polls st)[i := p] \<Longrightarrow>
   ended_ok t st'"
  unfolding ended_ok_def by (auto dest!: subsetD[OF set_update_subset_insert])

lemma call_ended_ok:
  assumes "call env c st st'" and ok: "state_ok st" and e: "ended_ok (block_timestamp c) st"
  shows "ended_ok (block_timestamp c) st'"
  using assms(1)
proof cases
  case (call_create ttl opts startT endT pollId)
  then show ?thesis
    using e by (auto simp: createPoll_Inr_iff ended_ok_def newPoll_def)
next
  case (call_vote pollId h p)
  from castVote_InrD[OF call_vote] have lt: "pollId < length (polls st)" by blast
  from castVote_Inr_ok[OF ok call_vote] obtain v where
    upd: "polls st' = (polls st)[pollId := votedPoll (FHE_asEuint32 v) (polls st ! pollId)]"
    by auto
  show ?thesis
    by (rule ended_ok_update[OF e _ upd]) (use e lt in \<open>auto dest: ended_ok_nth\<close>)
next
  case (call_finalize pollId)
  then have lt: "pollId < length (polls st)" "endTime (polls st ! pollId) \<le> block_timestamp c"
    and upd: "polls st' = (polls st)[pollId := finalizedPoll (polls st ! pollId)]"
    by (auto simp: finalizePoll_Inr_iff)
  show ?thesis
    by (rule ended_ok_update[OF e _ upd]) (use lt in simp)
next
  case (call_publish pollId cs p)
  then have lt: "pollId < length (polls st)"
    and upd: "polls st' = (polls st)[pollId := publishedPoll cs p (polls st ! pollId)]"
    by (auto simp: publishResults_Inr_iff)
  show ?thesis
    by (rule ended_ok_update[OF e _ upd]) (use e lt in \<open>auto dest: ended_ok_nth\<close>)
qed

lemma timed_reachable_ended_ok: "timed_reachable env t st \<Longrightarrow> ended_ok t st"
proof (induction rule: timed_reachable.induct)
  case (timed_deployed t)
  show ?case by (simp add: ended_ok_def deployed_def)
next
  case (timed_tick t st t')
  then show ?case by (blast intro: ended_ok_mono)
next
  case (timed_call t st c st')
  then show ?case
    using call_ended_ok[OF timed_call.hyps(3)] reachable_state_ok[OF timed_reachable_reachable]
    by blast
qed


section \<open>The run of the test suite, step by step\<close>

lemma samplePoll_simps [simp]:
  "options samplePoll = sampleOptions"
  "tallies samplePoll =
     [FHE_allowThis (FHE_asEuint32 0), FHE_allowThis (FHE_asEuint32 0), FHE_allowThis (FHE_asEuint32 0)]"
  "startTime samplePoll = 102" "endTime samplePoll = 402"
  "finalized samplePoll = False" "resultsPublished samplePoll = False"
  "publicResults samplePoll = []" "publicDecryptionProof samplePoll = []"
  by (simp_all add: samplePoll_def newPoll_def sampleOptions_def)

lemma sampleOptions_length [simp]: "length sampleOptions = 3"
  by (simp add: sampleOptions_def)

lemma run_create:
  "createPoll (at_time deployer 100) ''Favorite language'' sampleOptions 102 402 deployed
     = Inr (st_created, 0)"
  by (simp add: createPoll_Inr at_time_def st_created_def samplePoll_def deployed_def)

lemma run_voteA:
  "castVote mock (at_time voterA 103) 0 1 [1] st_created = Inr st_votedA"
  by (subst castVote_Inr[where v = 1])
     (simp_all add: st_created_def st_votedA_def at_time_def deployed_def mock_def)

lemma run_voteB:
  "castVote mock (at_time voterB 103) 0 2 [1] st_votedA = Inr st_votedAB"
  by (subst castVote_Inr[where v = 2])
     (simp_all add: st_created_def st_votedA_def st_votedAB_def at_time_def deployed_def mock_def
        voterA_def voterB_def)

lemma run_finalize:
  "finalizePoll (at_time deployer 403) 0 st_votedAB = Inr st_finalized"
  by (simp add: finalizePoll_Inr_iff st_finalized_def st_votedAB_def at_time_def)

lemma sample_tallies:
  "map clear (tallies (polls st_finalized ! 0)) = [0, 1, 1]"
  by (simp add: st_finalized_def st_votedAB_def votedPoll_def voteCell_def FHE_allowThis_def
      FHE_select_def FHE_eq_def FHE_add_def FHE_asEuint32_def FHE_makePubliclyDecryptable_def
      upt_rec numeral_3_eq_3)

lemma run_publish:
  "publishResults mock (at_time deployer 404) 0 [0, 1, 1] [1] st_finalized = Inr st_published"
  using sample_tallies
  by (simp add: publishResults_Inr_iff st_published_def st_finalized_def st_votedAB_def mock_def)

lemma reachable_created: "reachable mock st_created"
  by (rule reachable_call[OF reachable_deployed call_create[OF run_create]])

lemma reachable_votedA: "reachable mock st_votedA"
  by (rule reachable_call[OF reachable_created call_vote[OF run_voteA]])

lemma reachable_votedAB: "reachable mock st_votedAB"
  by (rule reachable_call[OF reachable_votedA call_vote[OF run_voteB]])

lemma reachable_finalized: "reachable mock st_finalized"
  by (rule reachable_call[OF reachable_votedAB call_finalize[OF run_finalize]])

lemma reachable_published: "reachable mock st_published"
  by (rule reachable_call[OF reachable_finalized call_publish[OF run_publish]])

lemma timed_created: "timed_reachable mock 100 st_created"
  by (rule timed_call[OF timed_deployed _ call_create[OF run_create]]) (simp add: at_time_def)

lemma timed_votedA: "timed_reachable mock 103 st_votedA"
  by (rule timed_call[OF timed_tick[OF timed_created] _ call_vote[OF run_voteA]])
     (simp_all add: at_time_def)

lemma timed_votedAB: "timed_reachable mock 103 st_votedAB"
  by (rule timed_call[OF timed_votedA _ call_vote[OF run_voteB]]) (simp add: at_time_def)

lemma timed_finalized: "timed_reachable mock 403 st_finalized"
  by (rule timed_call[OF timed_tick[OF timed_votedAB] _ call_finalize[OF run_finalize]])
     (simp_all add: at_time_def)


lemma st_created_simps [simp]:
  "polls st_created = [samplePoll]" "votes st_created = (\<lambda>_ _. False)"
  by (simp_all add: st_created_def deployed_def)

lemma st_votedA_polls [simp]: "polls st_votedA = [votedPoll (FHE_asEuint32 1) samplePoll]"
  by (simp add: st_votedA_def)

lemma st_votedA_votesA [simp]: "votes st_votedA 0 voterA"
  by (simp add: st_votedA_def)

lemma st_votedA_votesB [simp]: "\<not> votes st_votedA 0 voterB"
  by (simp add: st_votedA_def voterA_def voterB_def)

lemma st_votedAB_polls [simp]:
  "polls st_votedAB = [votedPoll (FHE_asEuint32 2) (votedPoll (FHE_asEuint32 1) samplePoll)]"
  by (simp add: st_votedAB_def)

lemma st_votedAB_votesA [simp]: "votes st_votedAB 0 voterA"
  by (simp add: st_votedAB_def)

lemma st_votedAB_votesB [simp]: "votes st_votedAB 0 voterB"
  by (simp add: st_votedAB_def)

lemma st_finalized_polls [simp]:
  "polls st_finalized =
     [finalizedPoll (votedPoll (FHE_asEuint32 2) (votedPoll (FHE_asEuint32 1) samplePoll))]"
  by (simp add: st_finalized_def)

lemma st_finalized_votes [simp]: "votes st_finalized = votes st_votedAB"
  by (simp add: st_finalized_def)

lemma st_published_polls [simp]:
  "polls st_published =
     [publishedPoll [0, 1, 1] [1]
        (finalizedPoll (votedPoll (FHE_asEuint32 2) (votedPoll (FHE_asEuint32 1) samplePoll)))]"
  by (simp add: st_published_def)

lemma at_time_simps [simp]:
  "msg_sender (at_time a t) = a" "block_timestamp (at_time a t) = t"
  by (simp_all add: at_time_def)

lemma after_simps [simp]: "after st (Inl e) = st" "after st (Inr st') = st'"
  by (simp_all add: after_def)

lemma steps_reachable:
  "rtranclp (step env) st st' \<Longrightarrow> reachable env st \<Longrightarrow> reachable env st'"
  by (induction rule: rtranclp_induct) (auto simp: step_def intro: reachable_call)

lemma steps_mono:
  assumes "rtranclp (step env) st st'" and "reachable env st" and "i < length (polls st)"
  shows "i < length (polls st') \<and>
         (finalized (polls st ! i) \<longrightarrow> finalized (polls st' ! i)) \<and>
         (resultsPublished (polls st ! i) \<longrightarrow> resultsPublished (polls st' ! i))"
  using assms
proof (induction rule: rtranclp_induct)
  case base
  then show ?case by simp
next
  case (step y z)
  then have i: "i < length (polls y)" and r: "reachable env y"
    by (auto intro: steps_reachable)
  from step.hyps(2) obtain c where "call env c y z"
    by (auto simp: step_def)
  from call_mono[OF this reachable_state_ok[OF r] i] step show ?case
    by blast
qed

lemma call_receipts_ok:
  assumes "call env c st st'" and ok: "state_ok st" and r: "receipts_ok st"
  shows "receipts_ok st'"
  using assms(1)
proof cases
  case (call_create ttl opts startT endT pollId)
  then show ?thesis
    using r by (auto simp: createPoll_Inr_iff receipts_ok_def less_Suc_eq)
next
  case (call_vote pollId h p)
  from castVote_InrD[OF call_vote] have lt: "pollId < length (polls st)" by blast
  from castVote_Inr_ok[OF ok call_vote] obtain v where
    st': "st' = st\<lparr>votes := (votes st)(pollId := (votes st pollId)(msg_sender c := True)),
             polls := (polls st)[pollId := votedPoll (FHE_asEuint32 v) (polls st ! pollId)],
             events := events st @ [VoteSubmitted pollId (msg_sender c)]\<rparr>"
    by blast
  show ?thesis
    unfolding receipts_ok_def
  proof (intro allI impI)
    fix q a assume "votes st' q a"
    then have "q = pollId \<or> votes st q a"
      by (auto simp: st' split: if_splits)
    then have "q < length (polls st)"
      using r lt unfolding receipts_ok_def by blast
    then show "q < length (polls st')"
      by (simp add: st')
  qed
next
  case (call_finalize pollId)
  then show ?thesis
    using r by (auto simp: finalizePoll_Inr_iff receipts_ok_def)
next
  case (call_publish pollId cs p)
  then show ?thesis
    using r by (auto simp: publishResults_Inr_iff receipts_ok_def)
qed

lemma reachable_receipts_ok: "reachable env st \<Longrightarrow> receipts_ok st"
proof (induction rule: reachable.induct)
  case reachable_deployed
  show ?case by (simp add: receipts_ok_def deployed_def)
next
  case (reachable_call st c st')
  then show ?case by (blast intro: call_receipts_ok reachable_state_ok)
qed

section \<open>Tallying\<close>

text \<open>What one vote and a sequence of votes do to the hidden values of the tallies.\<close>

lemma clear_voteCell:
  "clear (voteCell ch j t) = (if clear ch = of_nat j then clear t + 1 else clear t)"
  by (simp add: voteCell_def FHE_allowThis_def FHE_select_def FHE_eq_def FHE_add_def
      FHE_asEuint32_def)

lemma of_nat_eq_choice:
  fixes v :: uint32
  assumes "j < 2 ^ 32"
  shows "v = of_nat j \<longleftrightarrow> unat v = j"
  using assms by (auto simp: unat_of_nat)

lemma votedPoll_nth:
  "i < length (tallies p) \<Longrightarrow>
   tallies (votedPoll ch p) ! i =
     (if i < length (options p) then voteCell ch i (tallies p ! i) else tallies p ! i)"
  by (simp add: votedPoll_def)

lemma castVote_Inr_poll:
  assumes r: "castVote env c pollId h p st = Inr st'"
    and len: "length (options (polls st ! pollId)) \<le> length (tallies (polls st ! pollId))"
  shows "\<exists>v. inputVerifier env h p (msg_sender c) = Some v \<and>
     st' = st\<lparr>votes := (votes st)(pollId := (votes st pollId)(msg_sender c := True)),
             polls := (polls st)[pollId := votedPoll (FHE_asEuint32 v) (polls st ! pollId)],
             events := events st @ [VoteSubmitted pollId (msg_sender c)]\<rparr>"
proof -
  from castVote_InrD[OF r] obtain v where
    pre: "pollId < length (polls st)" "startTime (polls st ! pollId) \<le> block_timestamp c"
      "block_timestamp c < endTime (polls st ! pollId)" "\<not> finalized (polls st ! pollId)"
      "\<not> votes st pollId (msg_sender c)" and v: "inputVerifier env h p (msg_sender c) = Some v"
    by blast
  show ?thesis
    using castVote_Inr[OF pre v len] r v by simp
qed

lemma clear_votedPoll_nth:
  assumes "i < length (options p)" "length (tallies p) = length (options p)"
    "length (options p) \<le> 4"
  shows "clear (tallies (votedPoll (FHE_asEuint32 v) p) ! i) =
     (if i = unat v then clear (tallies p ! i) + 1 else clear (tallies p ! i))"
proof -
  have "i < 2 ^ 32" using assms(1,3) by simp
  then have "v = of_nat i \<longleftrightarrow> unat v = i"
    by (rule of_nat_eq_choice)
  then show ?thesis
    using assms(1,2) by (auto simp: votedPoll_nth clear_voteCell FHE_asEuint32_def)
qed

lemma clear_makePubliclyDecryptable [simp]:
  "clear (FHE_makePubliclyDecryptable e) = clear e"
  by (simp add: FHE_makePubliclyDecryptable_def)

lemma castVotes_tally:
  assumes "castVotes env pid vs st = Inr st'"
    and "pid < length (polls st)"
    and "length (tallies (polls st ! pid)) = length (options (polls st ! pid))"
    and "length (options (polls st ! pid)) \<le> 4"
    and "map (hiddenChoice env) vs = map Some cs"
  shows "pid < length (polls st') \<and>
         options (polls st' ! pid) = options (polls st ! pid) \<and>
         length (tallies (polls st' ! pid)) = length (tallies (polls st ! pid)) \<and>
         endTime (polls st' ! pid) = endTime (polls st ! pid) \<and>
         finalized (polls st' ! pid) = finalized (polls st ! pid) \<and>
         resultsPublished (polls st' ! pid) = resultsPublished (polls st ! pid) \<and>
         (\<forall>i < length (options (polls st ! pid)).
            clear (tallies (polls st' ! pid) ! i) =
              clear (tallies (polls st ! pid) ! i) + of_nat (count_list (map unat cs) i))"
  using assms
proof (induction vs arbitrary: st cs)
  case Nil
  then show ?case by simp
next
  case (Cons x vs)
  obtain c h p where x: "x = (c, h, p)" by (cases x) auto
  from Cons.prems(5) obtain v cs' where cs: "cs = v # cs'"
    by (cases cs) auto
  from Cons.prems(5) have rest: "map (hiddenChoice env) vs = map Some cs'"
    and "hiddenChoice env x = Some v"
    by (simp_all add: cs)
  then have hv: "inputVerifier env h p (msg_sender c) = Some v"
    by (simp add: x hiddenChoice_def)
  from Cons.prems(1) obtain st1 where r1: "castVote env c pid h p st = Inr st1"
    and r2: "castVotes env pid vs st1 = Inr st'"
    by (auto simp: x split: sum.splits)
  let ?P = "polls st ! pid"
  from castVote_Inr_poll[OF r1] Cons.prems(3) hv
  have st1: "st1 = st\<lparr>votes := (votes st)(pid := (votes st pid)(msg_sender c := True)),
             polls := (polls st)[pid := votedPoll (FHE_asEuint32 v) ?P],
             events := events st @ [VoteSubmitted pid (msg_sender c)]\<rparr>"
    by simp
  have P1: "polls st1 ! pid = votedPoll (FHE_asEuint32 v) ?P" and l1: "pid < length (polls st1)"
    using Cons.prems(2) by (simp_all add: st1)
  have pre: "length (tallies (polls st1 ! pid)) = length (options (polls st1 ! pid))"
    "length (options (polls st1 ! pid)) \<le> 4"
    using Cons.prems(3,4) by (simp_all add: P1)
  note IH = Cons.IH[OF r2 l1 pre rest, unfolded P1]
  have step: "clear (tallies (votedPoll (FHE_asEuint32 v) ?P) ! i) + of_nat (count_list (map unat cs') i)
      = clear (tallies ?P ! i) + of_nat (count_list (map unat cs) i)"
    if "i < length (options ?P)" for i
    using clear_votedPoll_nth[OF that Cons.prems(3,4), of v] by (simp add: cs)
  show ?case
    using IH step by simp
qed

lemma newPoll_fields [simp]:
  "options (newPoll c ttl opts startT endT) = opts"
  "tallies (newPoll c ttl opts startT endT) =
     replicate (length opts) (FHE_allowThis (FHE_asEuint32 0))"
  "finalized (newPoll c ttl opts startT endT) = False"
  "resultsPublished (newPoll c ttl opts startT endT) = False"
  by (simp_all add: newPoll_def)

section \<open>Sums of one-hot vectors and the published results\<close>

lemma onehot_length [simp]: "length (onehot n c) = n"
  by (simp add: onehot_def)

lemma onehot_nth [simp]: "i < n \<Longrightarrow> onehot n c ! i = (if i = c then 1 else 0)"
  by (simp add: onehot_def)

lemma fold_onehot:
  "length acc = n \<Longrightarrow>
   length (fold (\<lambda>c acc. map2 (+) acc (onehot n c)) cs acc) = n \<and>
   (\<forall>i < n. fold (\<lambda>c acc. map2 (+) acc (onehot n c)) cs acc ! i = acc ! i + of_nat (count_list cs i))"
proof (induction cs arbitrary: acc)
  case Nil
  then show ?case by simp
next
  case (Cons c cs)
  let ?acc = "map2 (+) acc (onehot n c)"
  have l: "length ?acc = n" using Cons.prems by simp
  have "\<forall>i < n. ?acc ! i = acc ! i + (if i = c then 1 else 0)"
    using Cons.prems by simp
  with Cons.IH[OF l] show ?case
    by (auto simp: add.assoc)
qed

lemma onehot_sum_length: "length (onehot_sum n cs) = n"
  using fold_onehot[of "replicate n 0" n cs] by (simp add: onehot_sum_def)

lemma onehot_sum_nth: "i < n \<Longrightarrow> onehot_sum n cs ! i = of_nat (count_list cs i)"
  using fold_onehot[of "replicate n 0" n cs] by (simp add: onehot_sum_def)

lemma count_list_distinct:
  "distinct xs \<Longrightarrow> count_list xs x = (if x \<in> set xs then 1 else 0)"
  by (induction xs) auto

lemma onehot_sum_distinct:
  assumes "distinct cs"
  shows "onehot_sum n (map unat cs) =
     map (\<lambda>i. if i \<in> unat ` set cs then 1 else 0) [0..<n]"
proof -
  have "distinct (map unat cs)"
    using assms by (simp add: distinct_map inj_on_def word_unat_eq_iff)
  then show ?thesis
    by (intro nth_equalityI) (simp_all add: onehot_sum_length onehot_sum_nth count_list_distinct)
qed

lemma onehot_sum_example: "onehot_sum 3 [1, 2] = [0, 1, 1]"
  by (simp add: onehot_sum_def onehot_def upt_rec numeral_3_eq_3)

lemma scenario_results:
  assumes c: "createPoll c0 ttl opts startT endT st0 = Inr (st1, pid)"
    and v: "castVotes env pid vs st1 = Inr st2"
    and h: "map (hiddenChoice env) vs = map Some cs"
    and f: "finalizePoll cF pid st2 = Inr st3"
    and g: "getEncryptedTallies pid st3 = Inr hs"
    and p: "publishResults env cP pid (map clear hs) dproof st3 = Inr st4"
  shows "getPublishedResults pid st4 = Inr (onehot_sum (length opts) (map unat cs), dproof)"
proof -
  from c have n: "length opts \<le> 4" and pid: "pid = length (polls st0)"
    and st1: "polls st1 = polls st0 @ [newPoll c0 ttl opts startT endT]"
    by (auto simp: createPoll_Inr_iff)
  have P1: "polls st1 ! pid = newPoll c0 ttl opts startT endT" and l1: "pid < length (polls st1)"
    by (simp_all add: st1 pid)
  from castVotes_tally[OF v l1 _ _ h] n
  have l2: "pid < length (polls st2)"
    and o2: "options (polls st2 ! pid) = opts"
    and t2: "length (tallies (polls st2 ! pid)) = length opts"
    and c2: "\<forall>i < length opts. clear (tallies (polls st2 ! pid) ! i) =
              of_nat (count_list (map unat cs) i)"
    by (simp_all add: P1 FHE_allowThis_def FHE_asEuint32_def)
  from f l2 have P3: "polls st3 ! pid = finalizedPoll (polls st2 ! pid)"
    and l3: "pid < length (polls st3)"
    by (auto simp: finalizePoll_Inr_iff)
  from g l3 have hs: "hs = map FHE_makePubliclyDecryptable (tallies (polls st2 ! pid))"
    by (simp add: getEncryptedTallies_def P3)
  have cl: "map clear hs = onehot_sum (length opts) (map unat cs)"
    using t2 c2 by (intro nth_equalityI) (simp_all add: hs onehot_sum_length onehot_sum_nth)
  from p l3 have "polls st4 ! pid = publishedPoll (map clear hs) dproof (polls st3 ! pid)"
    and "pid < length (polls st4)"
    by (auto simp: publishResults_Inr_iff)
  then show ?thesis
    by (simp add: getPublishedResults_def cl)
qed

lemma castVotes_succeeds:
  assumes "pid < length (polls st)"
    and "length (tallies (polls st ! pid)) = length (options (polls st ! pid))"
    and "\<not> finalized (polls st ! pid)"
    and "\<forall>x \<in> set vs. startTime (polls st ! pid) \<le> block_timestamp (fst x) \<and>
           block_timestamp (fst x) < endTime (polls st ! pid)"
    and "distinct (map (\<lambda>x. msg_sender (fst x)) vs)"
    and "\<forall>x \<in> set vs. \<not> votes st pid (msg_sender (fst x))"
    and "map (hiddenChoice env) vs = map Some cs"
  shows "\<exists>st'. castVotes env pid vs st = Inr st'"
  using assms
proof (induction vs arbitrary: st cs)
  case Nil
  then show ?case by simp
next
  case (Cons x vs)
  obtain c h p where x: "x = (c, h, p)" by (cases x) auto
  from Cons.prems(7) obtain v cs' where cs: "cs = v # cs'"
    by (cases cs) auto
  from Cons.prems(7) have rest: "map (hiddenChoice env) vs = map Some cs'"
    and "hiddenChoice env x = Some v"
    by (simp_all add: cs)
  then have hv: "inputVerifier env h p (msg_sender c) = Some v"
    by (simp add: x hiddenChoice_def)
  let ?P = "polls st ! pid"
  let ?st1 = "st\<lparr>votes := (votes st)(pid := (votes st pid)(msg_sender c := True)),
             polls := (polls st)[pid := votedPoll (FHE_asEuint32 v) ?P],
             events := events st @ [VoteSubmitted pid (msg_sender c)]\<rparr>"
  have w: "startTime ?P \<le> block_timestamp c" "block_timestamp c < endTime ?P"
    "\<not> votes st pid (msg_sender c)"
    using Cons.prems(4,6) by (simp_all add: x)
  have len: "length (options ?P) \<le> length (tallies ?P)"
    using Cons.prems(2) by simp
  have r1: "castVote env c pid h p st = Inr ?st1"
    by (rule castVote_Inr[OF Cons.prems(1) w(1,2) Cons.prems(3) w(3) hv len])
  have P1: "polls ?st1 ! pid = votedPoll (FHE_asEuint32 v) ?P" and l1: "pid < length (polls ?st1)"
    using Cons.prems(1) by simp_all
  have a2: "length (tallies (polls ?st1 ! pid)) = length (options (polls ?st1 ! pid))"
    and a3: "\<not> finalized (polls ?st1 ! pid)"
    and a4: "\<forall>x \<in> set vs. startTime (polls ?st1 ! pid) \<le> block_timestamp (fst x) \<and>
           block_timestamp (fst x) < endTime (polls ?st1 ! pid)"
    unfolding P1 using Cons.prems(2,3,4) by simp_all
  have a5: "distinct (map (\<lambda>x. msg_sender (fst x)) vs)"
    using Cons.prems(5) by simp
  have a6: "\<forall>y \<in> set vs. \<not> votes ?st1 pid (msg_sender (fst y))"
  proof
    fix y assume y: "y \<in> set vs"
    then have "msg_sender (fst y) \<in> (\<lambda>x. msg_sender (fst x)) ` set vs"
      by (rule imageI)
    moreover have "msg_sender c \<notin> (\<lambda>x. msg_sender (fst x)) ` set vs"
      using Cons.prems(5) by (simp add: x)
    ultimately have "msg_sender (fst y) \<noteq> msg_sender c"
      by metis
    then show "\<not> votes ?st1 pid (msg_sender (fst y))"
      using Cons.prems(6) y by simp
  qed
  from Cons.IH[OF l1 a2 a3 a4 a5 a6 rest] obtain st' where "castVotes env pid vs ?st1 = Inr st'"
    by blast
  then show ?case
    by (simp add: x r1)
qed

lemma scenario_handles:
  assumes c: "createPoll c0 ttl opts startT endT st0 = Inr (st1, pid)"
    and v: "castVotes env pid vs st1 = Inr st2"
    and h: "map (hiddenChoice env) vs = map Some cs"
    and f: "finalizePoll cF pid st2 = Inr st3"
  shows "getEncryptedTallies pid st3 = Inr (tallies (polls st3 ! pid)) \<and>
         length (tallies (polls st3 ! pid)) = length opts \<and>
         list_all publiclyDecryptable (tallies (polls st3 ! pid)) \<and>
         map clear (tallies (polls st3 ! pid)) = onehot_sum (length opts) (map unat cs)"
proof -
  from c have n: "length opts \<le> 4" and pid: "pid = length (polls st0)"
    and st1: "polls st1 = polls st0 @ [newPoll c0 ttl opts startT endT]"
    by (auto simp: createPoll_Inr_iff)
  have P1: "polls st1 ! pid = newPoll c0 ttl opts startT endT" and l1: "pid < length (polls st1)"
    by (simp_all add: st1 pid)
  from castVotes_tally[OF v l1 _ _ h] n
  have l2: "pid < length (polls st2)"
    and t2: "length (tallies (polls st2 ! pid)) = length opts"
    and c2: "\<forall>i < length opts. clear (tallies (polls st2 ! pid) ! i) =
              of_nat (count_list (map unat cs) i)"
    by (simp_all add: P1 FHE_allowThis_def FHE_asEuint32_def)
  from f l2 have P3: "polls st3 ! pid = finalizedPoll (polls st2 ! pid)"
    and l3: "pid < length (polls st3)"
    by (auto simp: finalizePoll_Inr_iff)
  have cl: "map clear (tallies (polls st3 ! pid)) = onehot_sum (length opts) (map unat cs)"
    using t2 c2 by (intro nth_equalityI) (simp_all add: P3 onehot_sum_length onehot_sum_nth)
  have pd: "list_all publiclyDecryptable (tallies (polls st3 ! pid))"
    by (simp add: P3 list_all_iff FHE_makePubliclyDecryptable_def)
  show ?thesis
    using l3 t2 cl pd by (simp add: getEncryptedTallies_def P3)
qed

lemma scenario_runs:
  assumes r: "reachable env st0"
    and o: "2 \<le> length opts" "length opts \<le> 4"
    and w: "startT < endT" "block_timestamp c0 < endT"
    and t: "\<forall>x \<in> set vs. startT \<le> block_timestamp (fst x) \<and> block_timestamp (fst x) < endT"
    and d: "distinct (map (\<lambda>x. msg_sender (fst x)) vs)"
    and h: "map (hiddenChoice env) vs = map Some cs"
    and e: "endT \<le> block_timestamp cF"
  shows "\<exists>st1 st2 st3.
     createPoll c0 ttl opts startT endT st0 = Inr (st1, length (polls st0)) \<and>
     castVotes env (length (polls st0)) vs st1 = Inr st2 \<and>
     finalizePoll cF (length (polls st0)) st2 = Inr st3 \<and>
     (kmsVerifier env (tallies (polls st3 ! length (polls st0)))
        (map clear (tallies (polls st3 ! length (polls st0)))) dproof \<longrightarrow>
        (\<exists>st4. publishResults env cP (length (polls st0))
                 (map clear (tallies (polls st3 ! length (polls st0)))) dproof st3 = Inr st4))"
proof -
  let ?pid = "length (polls st0)"
  let ?st1 = "st0\<lparr>polls := polls st0 @ [newPoll c0 ttl opts startT endT],
             events := events st0 @ [PollCreated ?pid ttl startT endT]\<rparr>"
  have c: "createPoll c0 ttl opts startT endT st0 = Inr (?st1, ?pid)"
    by (rule createPoll_Inr[OF o w])
  have P1: "polls ?st1 ! ?pid = newPoll c0 ttl opts startT endT" and l1: "?pid < length (polls ?st1)"
    by simp_all
  have nv: "\<forall>x \<in> set vs. \<not> votes ?st1 ?pid (msg_sender (fst x))"
    using reachable_receipts_ok[OF r] by (auto simp: receipts_ok_def)
  have "\<exists>st2. castVotes env ?pid vs ?st1 = Inr st2"
    by (rule castVotes_succeeds[OF l1 _ _ _ d nv h])
       (use t in \<open>simp_all add: P1 newPoll_def\<close>)
  then obtain st2 where v: "castVotes env ?pid vs ?st1 = Inr st2" by blast
  from castVotes_tally[OF v l1 _ _ h] o
  have l2: "?pid < length (polls st2)"
    and o2: "options (polls st2 ! ?pid) = opts"
    and e2: "endTime (polls st2 ! ?pid) = endT"
    and f2: "\<not> finalized (polls st2 ! ?pid)"
    and p2: "\<not> resultsPublished (polls st2 ! ?pid)"
    by (simp_all add: P1 newPoll_def)
  let ?st3 = "st2\<lparr>polls := (polls st2)[?pid := finalizedPoll (polls st2 ! ?pid)],
              events := events st2 @ [PollFinalized ?pid]\<rparr>"
  have f: "finalizePoll cF ?pid st2 = Inr ?st3"
    using l2 e2 f2 e by (simp add: finalizePoll_Inr_iff)
  have P3: "polls ?st3 ! ?pid = finalizedPoll (polls st2 ! ?pid)" and l3: "?pid < length (polls ?st3)"
    using l2 by simp_all
  from scenario_handles[OF c v h f]
  have len: "length (tallies (polls ?st3 ! ?pid)) = length opts" by blast
  have pub: "\<exists>st4. publishResults env cP ?pid (map clear (tallies (polls ?st3 ! ?pid))) dproof ?st3
      = Inr st4"
    if "kmsVerifier env (tallies (polls ?st3 ! ?pid)) (map clear (tallies (polls ?st3 ! ?pid))) dproof"
    using that l3 len o2 p2 unfolding publishResults_Inr_iff P3 by simp
  from c v f pub show ?thesis by blast
qed

section \<open>Further runs\<close>

lemma run_finalize_unvoted:
  "finalizePoll (at_time deployer 403) 0 st_created =
     Inr (st_created\<lparr>polls := [finalizedPoll samplePoll],
                     events := events st_created @ [PollFinalized 0]\<rparr>)"
  by (simp add: finalizePoll_Inr_iff)

lemma finalized_unpublished_reachable:
  "\<exists>st. reachable env st \<and>
     (\<exists>i. i < length (polls st) \<and> finalized (polls st ! i) \<and> \<not> resultsPublished (polls st ! i))"
proof -
  let ?st = "st_created\<lparr>polls := [finalizedPoll samplePoll],
                     events := events st_created @ [PollFinalized 0]\<rparr>"
  have "reachable env st_created"
    by (rule reachable_call[OF reachable_deployed call_create[OF run_create]])
  then have "reachable env ?st"
    by (rule reachable_call[OF _ call_finalize[OF run_finalize_unvoted]])
  moreover have "0 < length (polls ?st) \<and> finalized (polls ?st ! 0) \<and>
      \<not> resultsPublished (polls ?st ! 0)"
    by simp
  ultimately show ?thesis by blast
qed

section \<open>Properties of the contract\<close>

subsection \<open>C1: the one-hot update of the tallies\<close>

text \<open>
  C1: in a reachable state, a \<^verbatim>\<open>castVote\<close> that passes the four checks, with a valid
  input proof and a hidden choice \<open>v\<close> below the number of options, succeeds: it records
  the receipt and rewrites the tally at every option index \<open>i\<close> with the oblivious
  select of the loop (\<open>voteCell\<close>), so that the tally at index \<open>v\<close> hides its former
  value plus 1 and every other tally hides its former value. Every successful
  \<^verbatim>\<open>castVote\<close> is such a call. The addition is that of \<^verbatim>\<open>euint32\<close>, modulo \<open>2 ^ 32\<close>:
  as a natural number the value grows by exactly 1 unless the counter was at
  \<open>2 ^ 32 - 1\<close>. Consequently the scenario runs: from a reachable state, creating a poll
  with valid arguments, casting votes of pairwise different callers inside the window
  with valid choices, and finalizing from \<open>endTime\<close> on all succeed, the handles then
  read hide the sum of the one-hot vectors of the choices, and publishing these values
  with a proof that the verifier accepts succeeds and stores them as the published
  results. For pairwise different choices the sum has 1 at the chosen options and 0
  elsewhere; for three options and the choices 1 and 2 it is \<open>[0, 1, 1]\<close>.
\<close>

theorem castVote_one_hot:
  "(reachable env st \<and> pollId < length (polls st) \<and>
    startTime (polls st ! pollId) \<le> block_timestamp c \<and>
    block_timestamp c < endTime (polls st ! pollId) \<and>
    \<not> finalized (polls st ! pollId) \<and> \<not> votes st pollId (msg_sender c) \<and>
    inputVerifier env h p (msg_sender c) = Some v \<and>
    unat v < length (options (polls st ! pollId)) \<longrightarrow>
      (\<exists>st'. castVote env c pollId h p st = Inr st' \<and>
         votes st' pollId (msg_sender c) \<and>
         length (tallies (polls st' ! pollId)) = length (options (polls st ! pollId)) \<and>
         (\<forall>i < length (options (polls st ! pollId)).
            tallies (polls st' ! pollId) ! i =
              voteCell (FHE_asEuint32 v) i (tallies (polls st ! pollId) ! i) \<and>
            clear (tallies (polls st' ! pollId) ! i) =
              (if i = unat v then clear (tallies (polls st ! pollId) ! i) + 1
               else clear (tallies (polls st ! pollId) ! i))) \<and>
         (unat (clear (tallies (polls st ! pollId) ! unat v)) < 2 ^ 32 - 1 \<longrightarrow>
            unat (clear (tallies (polls st' ! pollId) ! unat v)) =
              unat (clear (tallies (polls st ! pollId) ! unat v)) + 1))) \<and>
   (castVote env c pollId h p st = Inr st2 \<longrightarrow>
      pollId < length (polls st) \<and>
      startTime (polls st ! pollId) \<le> block_timestamp c \<and>
      block_timestamp c < endTime (polls st ! pollId) \<and>
      \<not> finalized (polls st ! pollId) \<and> \<not> votes st pollId (msg_sender c) \<and>
      (\<exists>w. inputVerifier env h p (msg_sender c) = Some w)) \<and>
   (reachable env st \<and> 2 \<le> length opts \<and> length opts \<le> 4 \<and>
    startT < endT \<and> block_timestamp c0 < endT \<and>
    (\<forall>x \<in> set vs. startT \<le> block_timestamp (fst x) \<and> block_timestamp (fst x) < endT) \<and>
    distinct (map (\<lambda>x. msg_sender (fst x)) vs) \<and>
    map (hiddenChoice env) vs = map Some cs \<and> (\<forall>x \<in> set cs. unat x < length opts) \<and>
    endT \<le> block_timestamp cF \<longrightarrow>
      (\<exists>s1 s2 s3 hs.
         createPoll c0 ttl opts startT endT st = Inr (s1, length (polls st)) \<and>
         castVotes env (length (polls st)) vs s1 = Inr s2 \<and>
         finalizePoll cF (length (polls st)) s2 = Inr s3 \<and>
         getEncryptedTallies (length (polls st)) s3 = Inr hs \<and>
         map clear hs = onehot_sum (length opts) (map unat cs) \<and>
         (kmsVerifier env hs (map clear hs) dproof \<longrightarrow>
            (\<exists>s4. publishResults env cP (length (polls st)) (map clear hs) dproof s3 = Inr s4 \<and>
               getPublishedResults (length (polls st)) s4 =
                 Inr (onehot_sum (length opts) (map unat cs), dproof))))) \<and>
   (distinct cs \<longrightarrow>
      onehot_sum (length opts) (map unat cs) =
        map (\<lambda>i. if i \<in> unat ` set cs then 1 else 0) [0..<length opts]) \<and>
   onehot_sum 3 [1, 2] = [0, 1, 1]"
proof (intro conjI impI)
  assume a: "reachable env st \<and> pollId < length (polls st) \<and>
    startTime (polls st ! pollId) \<le> block_timestamp c \<and>
    block_timestamp c < endTime (polls st ! pollId) \<and>
    \<not> finalized (polls st ! pollId) \<and> \<not> votes st pollId (msg_sender c) \<and>
    inputVerifier env h p (msg_sender c) = Some v \<and>
    unat v < length (options (polls st ! pollId))"
  let ?P = "polls st ! pollId"
  let ?st = "st\<lparr>votes := (votes st)(pollId := (votes st pollId)(msg_sender c := True)),
             polls := (polls st)[pollId := votedPoll (FHE_asEuint32 v) ?P],
             events := events st @ [VoteSubmitted pollId (msg_sender c)]\<rparr>"
  from a have i: "pollId < length (polls st)"
    and w: "startTime ?P \<le> block_timestamp c" "block_timestamp c < endTime ?P"
    and nf: "\<not> finalized ?P" and nv: "\<not> votes st pollId (msg_sender c)"
    and hv: "inputVerifier env h p (msg_sender c) = Some v"
    and v: "unat v < length (options ?P)" and ok: "state_ok st"
    by (blast intro: reachable_state_ok)+
  have len: "length (tallies ?P) = length (options ?P)" and n: "length (options ?P) \<le> 4"
    using state_ok_nth[OF ok i] by (simp_all add: poll_ok_def)
  have r: "castVote env c pollId h p st = Inr ?st"
    using castVote_Inr[OF i w nf nv hv] len by simp
  have P': "polls ?st ! pollId = votedPoll (FHE_asEuint32 v) ?P"
    using i by simp
  have 1: "votes ?st pollId (msg_sender c)"
    by simp
  have 2: "length (tallies (polls ?st ! pollId)) = length (options ?P)"
    unfolding P' by (simp add: len)
  have 3: "\<forall>i < length (options ?P).
         tallies (polls ?st ! pollId) ! i = voteCell (FHE_asEuint32 v) i (tallies ?P ! i) \<and>
         clear (tallies (polls ?st ! pollId) ! i) =
           (if i = unat v then clear (tallies ?P ! i) + 1 else clear (tallies ?P ! i))"
    unfolding P' using clear_votedPoll_nth[OF _ len n, of _ v] len
    by (simp add: votedPoll_nth)
  have inc: "clear (tallies (polls ?st ! pollId) ! unat v) = clear (tallies ?P ! unat v) + 1"
    unfolding P' using clear_votedPoll_nth[OF v len n, of v] by simp
  have 4: "unat (clear (tallies (polls ?st ! pollId) ! unat v)) =
        unat (clear (tallies ?P ! unat v)) + 1"
    if b: "unat (clear (tallies ?P ! unat v)) < 2 ^ 32 - 1"
  proof -
    have "unat (clear (tallies ?P ! unat v) + 1) =
        unat (clear (tallies ?P ! unat v)) + unat (1 :: uint32)"
      using b by (subst unat_add_lem[symmetric]) simp
    then show ?thesis by (simp only: inc unat_1)
  qed
  from r 1 2 3 4 show "\<exists>st'. castVote env c pollId h p st = Inr st' \<and>
         votes st' pollId (msg_sender c) \<and>
         length (tallies (polls st' ! pollId)) = length (options ?P) \<and>
         (\<forall>i < length (options ?P).
            tallies (polls st' ! pollId) ! i = voteCell (FHE_asEuint32 v) i (tallies ?P ! i) \<and>
            clear (tallies (polls st' ! pollId) ! i) =
              (if i = unat v then clear (tallies ?P ! i) + 1 else clear (tallies ?P ! i))) \<and>
         (unat (clear (tallies ?P ! unat v)) < 2 ^ 32 - 1 \<longrightarrow>
            unat (clear (tallies (polls st' ! pollId) ! unat v)) =
              unat (clear (tallies ?P ! unat v)) + 1)"
    by blast
next
  assume r: "castVote env c pollId h p st = Inr st2"
  from castVote_InrD[OF r]
  show "pollId < length (polls st)"
    "startTime (polls st ! pollId) \<le> block_timestamp c"
    "block_timestamp c < endTime (polls st ! pollId)"
    "\<not> finalized (polls st ! pollId)" "\<not> votes st pollId (msg_sender c)"
    "\<exists>w. inputVerifier env h p (msg_sender c) = Some w"
    by blast+
next
  assume a: "reachable env st \<and> 2 \<le> length opts \<and> length opts \<le> 4 \<and>
    startT < endT \<and> block_timestamp c0 < endT \<and>
    (\<forall>x \<in> set vs. startT \<le> block_timestamp (fst x) \<and> block_timestamp (fst x) < endT) \<and>
    distinct (map (\<lambda>x. msg_sender (fst x)) vs) \<and>
    map (hiddenChoice env) vs = map Some cs \<and> (\<forall>x \<in> set cs. unat x < length opts) \<and>
    endT \<le> block_timestamp cF"
  let ?pid = "length (polls st)"
  from a have h: "map (hiddenChoice env) vs = map Some cs" by blast
  from a scenario_runs[of env st opts startT endT c0 vs cs cF ttl dproof cP]
  obtain s1 s2 s3 where c: "createPoll c0 ttl opts startT endT st = Inr (s1, ?pid)"
    and vt: "castVotes env ?pid vs s1 = Inr s2"
    and f: "finalizePoll cF ?pid s2 = Inr s3"
    and pb: "kmsVerifier env (tallies (polls s3 ! ?pid)) (map clear (tallies (polls s3 ! ?pid)))
        dproof \<longrightarrow>
      (\<exists>s4. publishResults env cP ?pid (map clear (tallies (polls s3 ! ?pid))) dproof s3 = Inr s4)"
    by blast
  let ?hs = "tallies (polls s3 ! ?pid)"
  from scenario_handles[OF c vt h f]
  have g: "getEncryptedTallies ?pid s3 = Inr ?hs"
    and cl: "map clear ?hs = onehot_sum (length opts) (map unat cs)"
    by blast+
  have res: "\<exists>s4. publishResults env cP ?pid (map clear ?hs) dproof s3 = Inr s4 \<and>
      getPublishedResults ?pid s4 = Inr (onehot_sum (length opts) (map unat cs), dproof)"
    if k: "kmsVerifier env ?hs (map clear ?hs) dproof"
  proof -
    from pb k obtain s4 where p4: "publishResults env cP ?pid (map clear ?hs) dproof s3 = Inr s4"
      by blast
    from scenario_results[OF c vt h f g p4] p4 show ?thesis by blast
  qed
  from c vt f g cl res
  show "\<exists>s1 s2 s3 hs.
         createPoll c0 ttl opts startT endT st = Inr (s1, length (polls st)) \<and>
         castVotes env (length (polls st)) vs s1 = Inr s2 \<and>
         finalizePoll cF (length (polls st)) s2 = Inr s3 \<and>
         getEncryptedTallies (length (polls st)) s3 = Inr hs \<and>
         map clear hs = onehot_sum (length opts) (map unat cs) \<and>
         (kmsVerifier env hs (map clear hs) dproof \<longrightarrow>
            (\<exists>s4. publishResults env cP (length (polls st)) (map clear hs) dproof s3 = Inr s4 \<and>
               getPublishedResults (length (polls st)) s4 =
                 Inr (onehot_sum (length opts) (map unat cs), dproof)))"
    by blast
next
  assume "distinct cs"
  then show "onehot_sum (length opts) (map unat cs) =
        map (\<lambda>i. if i \<in> unat ` set cs then 1 else 0) [0..<length opts]"
    by (rule onehot_sum_distinct)
next
  show "onehot_sum 3 [1, 2] = [0, 1, 1]"
    by (rule onehot_sum_example)
qed

theorem castVote_one_hot_witness:
  "(\<exists>s1 s2.
      createPoll (at_time deployer 100) ''Favorite language''
        [''Solidity'', ''TypeScript'', ''Rust''] 102 402 deployed = Inr (s1, 0) \<and>
      map clear (tallies (polls s1 ! 0)) = [0, 0, 0] \<and>
      castVote mock (at_time voterA 103) 0 1 [1] s1 = Inr s2 \<and>
      votes s2 0 voterA \<and>
      map clear (tallies (polls s2 ! 0)) = [0, 1, 0]) \<and>
   (\<exists>s1 s2 s3 s4 hs.
      createPoll (at_time deployer 100) ''Favorite language''
        [''Solidity'', ''TypeScript'', ''Rust''] 102 402 deployed = Inr (s1, 0) \<and>
      castVotes mock 0 [(at_time voterA 103, 1, [1]), (at_time voterB 103, 2, [1])] s1 = Inr s2 \<and>
      finalizePoll (at_time deployer 403) 0 s2 = Inr s3 \<and>
      getEncryptedTallies 0 s3 = Inr hs \<and>
      map clear hs = [0, 1, 1] \<and>
      publishResults mock (at_time deployer 404) 0 [0, 1, 1] [1] s3 = Inr s4 \<and>
      getPublishedResults 0 s4 = Inr ([0, 1, 1], [1]))"
proof (rule conjI)
  note T = castVote_one_hot
  have c: "createPoll (at_time deployer 100) ''Favorite language''
        [''Solidity'', ''TypeScript'', ''Rust''] 102 402 deployed = Inr (st_created, 0)"
    using run_create by (simp add: sampleOptions_def)
  have z: "map clear (tallies (polls st_created ! 0)) = [0, 0, 0]"
    by (simp add: FHE_allowThis_def FHE_asEuint32_def)
  have iv: "inputVerifier mock 1 [1] a = Some 1" for a
    by (simp add: mock_def)
  have pre: "reachable mock st_created \<and> 0 < length (polls st_created) \<and>
    startTime (polls st_created ! 0) \<le> block_timestamp (at_time voterA 103) \<and>
    block_timestamp (at_time voterA 103) < endTime (polls st_created ! 0) \<and>
    \<not> finalized (polls st_created ! 0) \<and>
    \<not> votes st_created 0 (msg_sender (at_time voterA 103)) \<and>
    inputVerifier mock 1 [1] (msg_sender (at_time voterA 103)) = Some 1 \<and>
    unat (1 :: uint32) < length (options (polls st_created ! 0))"
    by (simp add: reachable_created iv)
  from T[where env = mock and st = st_created and pollId = 0 and c = "at_time voterA 103"
      and h = 1 and p = "[1]" and v = 1, THEN conjunct1, rule_format, OF pre]
  obtain s2 where r: "castVote mock (at_time voterA 103) 0 1 [1] st_created = Inr s2"
    and vt: "votes s2 0 (msg_sender (at_time voterA 103))"
    and len: "length (tallies (polls s2 ! 0)) = length (options (polls st_created ! 0))"
    and el: "\<forall>i < length (options (polls st_created ! 0)).
            tallies (polls s2 ! 0) ! i =
              voteCell (FHE_asEuint32 1) i (tallies (polls st_created ! 0) ! i) \<and>
            clear (tallies (polls s2 ! 0) ! i) =
              (if i = unat (1 :: uint32) then clear (tallies (polls st_created ! 0) ! i) + 1
               else clear (tallies (polls st_created ! 0) ! i))"
    by blast
  have len3: "length (tallies (polls s2 ! 0)) = 3"
    using len by simp
  have e0: "clear (tallies (polls s2 ! 0) ! 0) = 0"
    using el[rule_format, of 0, THEN conjunct2] by (simp add: FHE_allowThis_def FHE_asEuint32_def)
  have e1: "clear (tallies (polls s2 ! 0) ! 1) = 1"
    using el[rule_format, of 1, THEN conjunct2] by (simp add: FHE_allowThis_def FHE_asEuint32_def)
  have e2: "clear (tallies (polls s2 ! 0) ! 2) = 0"
    using el[rule_format, of 2, THEN conjunct2] by (simp add: FHE_allowThis_def FHE_asEuint32_def)
  have cells: "map clear (tallies (polls s2 ! 0)) = [0, 1, 0]"
  proof (rule nth_equalityI)
    show "length (map clear (tallies (polls s2 ! 0))) = length [0, 1, 0 :: uint32]"
      using len3 by simp
  next
    fix i assume "i < length (map clear (tallies (polls s2 ! 0)))"
    then have "i = 0 \<or> i = 1 \<or> i = 2" using len3 by auto
    then show "map clear (tallies (polls s2 ! 0)) ! i = [0, 1, 0] ! i"
      using len3 e0 e1 e2 by auto
  qed
  from c z r vt cells
  show "\<exists>s1 s2.
      createPoll (at_time deployer 100) ''Favorite language''
        [''Solidity'', ''TypeScript'', ''Rust''] 102 402 deployed = Inr (s1, 0) \<and>
      map clear (tallies (polls s1 ! 0)) = [0, 0, 0] \<and>
      castVote mock (at_time voterA 103) 0 1 [1] s1 = Inr s2 \<and>
      votes s2 0 voterA \<and>
      map clear (tallies (polls s2 ! 0)) = [0, 1, 0]"
    by auto
next
  note T = castVote_one_hot
  let ?opts = "[''Solidity'', ''TypeScript'', ''Rust'']"
  let ?vs = "[(at_time voterA 103, 1, [1]), (at_time voterB 103, 2, [1])]
    :: (ctx \<times> externalEuint32 \<times> bytes) list"
  have hc: "map (hiddenChoice mock) ?vs = map Some [1, 2]"
    by (simp add: hiddenChoice_def mock_def)
  have pre: "reachable mock deployed \<and> 2 \<le> length ?opts \<and> length ?opts \<le> 4 \<and>
    (102 :: nat) < 402 \<and> block_timestamp (at_time deployer 100) < 402 \<and>
    (\<forall>x \<in> set ?vs. 102 \<le> block_timestamp (fst x) \<and> block_timestamp (fst x) < 402) \<and>
    distinct (map (\<lambda>x. msg_sender (fst x)) ?vs) \<and>
    map (hiddenChoice mock) ?vs = map Some [1, 2] \<and>
    (\<forall>x \<in> set [1, 2 :: uint32]. unat x < length ?opts) \<and>
    402 \<le> block_timestamp (at_time deployer 403)"
    using hc by (simp add: reachable_deployed voterA_def voterB_def)
  have l0: "length (polls deployed) = 0"
    by (simp add: deployed_def)
  from T[where env = mock and st = deployed and opts = ?opts and startT = 102 and endT = 402
      and ?c0.0 = "at_time deployer 100" and vs = ?vs and cs = "[1, 2]"
      and cF = "at_time deployer 403" and ttl = "''Favorite language''" and dproof = "[1]"
      and cP = "at_time deployer 404",
      THEN conjunct2, THEN conjunct2, THEN conjunct1, rule_format, OF pre, unfolded l0]
  obtain s1 s2 s3 hs where
    c: "createPoll (at_time deployer 100) ''Favorite language'' ?opts 102 402 deployed = Inr (s1, 0)"
    and v: "castVotes mock 0 ?vs s1 = Inr s2"
    and f: "finalizePoll (at_time deployer 403) 0 s2 = Inr s3"
    and g: "getEncryptedTallies 0 s3 = Inr hs"
    and cl: "map clear hs = onehot_sum (length ?opts) (map unat [1, 2 :: uint32])"
    and pb: "kmsVerifier mock hs (map clear hs) [1] \<longrightarrow>
        (\<exists>s4. publishResults mock (at_time deployer 404) 0 (map clear hs) [1] s3 = Inr s4 \<and>
           getPublishedResults 0 s4 =
             Inr (onehot_sum (length ?opts) (map unat [1, 2 :: uint32]), [1]))"
    by blast
  have n3: "length ?opts = 3" and m: "map unat [1, 2 :: uint32] = [1, 2]"
    by simp_all
  have cl': "map clear hs = [0, 1, 1]"
    by (simp only: cl n3 m onehot_sum_example)
  have k: "kmsVerifier mock hs (map clear hs) [1]"
    by (simp add: mock_def)
  from pb k obtain s4 where
    "publishResults mock (at_time deployer 404) 0 (map clear hs) [1] s3 = Inr s4"
    "getPublishedResults 0 s4 = Inr (map clear hs, [1])"
    unfolding cl[symmetric] by blast
  then have p4: "publishResults mock (at_time deployer 404) 0 [0, 1, 1] [1] s3 = Inr s4"
    and r4: "getPublishedResults 0 s4 = Inr ([0, 1, 1], [1])"
    unfolding cl' by simp_all
  show "\<exists>s1 s2 s3 s4 hs.
      createPoll (at_time deployer 100) ''Favorite language'' ?opts 102 402 deployed = Inr (s1, 0) \<and>
      castVotes mock 0 ?vs s1 = Inr s2 \<and>
      finalizePoll (at_time deployer 403) 0 s2 = Inr s3 \<and>
      getEncryptedTallies 0 s3 = Inr hs \<and>
      map clear hs = [0, 1, 1] \<and>
      publishResults mock (at_time deployer 404) 0 [0, 1, 1] [1] s3 = Inr s4 \<and>
      getPublishedResults 0 s4 = Inr ([0, 1, 1], [1])"
    apply (rule exI[of _ s1], rule exI[of _ s2], rule exI[of _ s3], rule exI[of _ s4],
        rule exI[of _ hs])
    apply (intro conjI)
          apply (rule c v f g cl' p4 r4)+
    done
qed

subsection \<open>C2: publication is gated by the proof\<close>

text \<open>
  C2: \<^verbatim>\<open>publishResults\<close> writes nothing unless the Decryption Verifier accepts the
  handles of the poll's tallies, the clear tallies and the proof. In a reachable state,
  for a finalized poll whose results are not published and clear tallies of the right
  length: when the verifier rejects, the call reverts and the state is as it was, with
  \<open>resultsPublished\<close> false, \<open>publicResults\<close> empty and no event; when it accepts, the
  call stores the clear tallies and the proof, sets \<open>resultsPublished\<close> and emits
  \<^verbatim>\<open>ResultsPublished\<close>, and changes nothing else. Every successful call has passed the
  verifier.
\<close>

theorem publishResults_fail_closed:
  assumes "reachable env st" and "pollId < length (polls st)"
    and "finalized (polls st ! pollId)" and "\<not> resultsPublished (polls st ! pollId)"
    and "length cs = length (options (polls st ! pollId))"
  shows
  "(\<not> kmsVerifier env (tallies (polls st ! pollId)) cs dproof \<longrightarrow>
      publishResults env c pollId cs dproof st = Inl InvalidDecryptionProof \<and>
      after st (publishResults env c pollId cs dproof st) = st \<and>
      \<not> resultsPublished (polls (after st (publishResults env c pollId cs dproof st)) ! pollId) \<and>
      publicResults (polls (after st (publishResults env c pollId cs dproof st)) ! pollId) = [] \<and>
      publicDecryptionProof (polls (after st (publishResults env c pollId cs dproof st)) ! pollId)
        = []) \<and>
   (kmsVerifier env (tallies (polls st ! pollId)) cs dproof \<longrightarrow>
      publishResults env c pollId cs dproof st =
        Inr (st\<lparr>polls := (polls st)[pollId := (polls st ! pollId)
                    \<lparr>publicResults := cs, resultsPublished := True,
                     publicDecryptionProof := dproof\<rparr>],
                events := events st @ [ResultsPublished pollId cs]\<rparr>)) \<and>
   (\<forall>st'. publishResults env c pollId cs dproof st = Inr st' \<longrightarrow>
      kmsVerifier env (tallies (polls st ! pollId)) cs dproof \<and>
      resultsPublished (polls st' ! pollId) \<and> publicResults (polls st' ! pollId) = cs \<and>
      publicDecryptionProof (polls st' ! pollId) = dproof \<and>
      events st' = events st @ [ResultsPublished pollId cs])"
proof -
  have ok: "poll_ok (polls st ! pollId)"
    using assms(1,2) by (blast intro: state_ok_nth reachable_state_ok)
  then have empty: "publicResults (polls st ! pollId) = []"
    "publicDecryptionProof (polls st ! pollId) = []"
    using assms(4) by (simp_all add: poll_ok_def)
  have rej: "publishResults env c pollId cs dproof st = Inl InvalidDecryptionProof"
    if "\<not> kmsVerifier env (tallies (polls st ! pollId)) cs dproof"
    using that assms(2-5)
    by (simp add: publishResults_def handles_all FHE_checkSignatures_def)
  have acc: "publishResults env c pollId cs dproof st =
        Inr (st\<lparr>polls := (polls st)[pollId := (polls st ! pollId)
                    \<lparr>publicResults := cs, resultsPublished := True,
                     publicDecryptionProof := dproof\<rparr>],
                events := events st @ [ResultsPublished pollId cs]\<rparr>)"
    if "kmsVerifier env (tallies (polls st ! pollId)) cs dproof"
    using that assms(2-5)
    by (simp add: publishResults_def handles_all FHE_checkSignatures_def)
  have suc: "kmsVerifier env (tallies (polls st ! pollId)) cs dproof \<and>
      resultsPublished (polls st' ! pollId) \<and> publicResults (polls st' ! pollId) = cs \<and>
      publicDecryptionProof (polls st' ! pollId) = dproof \<and>
      events st' = events st @ [ResultsPublished pollId cs]"
    if "publishResults env c pollId cs dproof st = Inr st'" for st'
    using that assms(2) by (auto simp: publishResults_Inr_iff)
  show ?thesis
  proof (intro conjI impI allI)
    assume n: "\<not> kmsVerifier env (tallies (polls st ! pollId)) cs dproof"
    show "publishResults env c pollId cs dproof st = Inl InvalidDecryptionProof"
      by (rule rej[OF n])
    show "after st (publishResults env c pollId cs dproof st) = st"
      by (simp add: rej[OF n])
    show "\<not> resultsPublished (polls (after st (publishResults env c pollId cs dproof st)) ! pollId)"
      by (simp add: rej[OF n] assms(4))
    show "publicResults (polls (after st (publishResults env c pollId cs dproof st)) ! pollId) = []"
      by (simp add: rej[OF n] empty)
    show "publicDecryptionProof (polls (after st (publishResults env c pollId cs dproof st)) ! pollId)
        = []"
      by (simp add: rej[OF n] empty)
  next
    assume "kmsVerifier env (tallies (polls st ! pollId)) cs dproof"
    then show "publishResults env c pollId cs dproof st =
        Inr (st\<lparr>polls := (polls st)[pollId := (polls st ! pollId)
                    \<lparr>publicResults := cs, resultsPublished := True,
                     publicDecryptionProof := dproof\<rparr>],
                events := events st @ [ResultsPublished pollId cs]\<rparr>)"
      by (rule acc)
  qed (use suc in blast)+
qed

theorem publishResults_fail_closed_witness:
  "publishResults mock (at_time deployer 404) 0 [0, 1, 1] [] st_finalized
     = Inl InvalidDecryptionProof \<and>
   publishResults mock (at_time deployer 404) 0 [1, 1, 0] [1] st_finalized
     = Inl InvalidDecryptionProof \<and>
   after st_finalized (publishResults mock (at_time deployer 404) 0 [1, 1, 0] [1] st_finalized)
     = st_finalized \<and>
   publicResults (polls st_finalized ! 0) = [] \<and> \<not> resultsPublished (polls st_finalized ! 0) \<and>
   publishResults mock (at_time deployer 404) 0 [0, 1, 1] [1] st_finalized = Inr st_published \<and>
   publicResults (polls st_published ! 0) = [0, 1, 1]"
proof -
  have P: "0 < length (polls st_finalized)" "finalized (polls st_finalized ! 0)"
    "\<not> resultsPublished (polls st_finalized ! 0)"
    by simp_all
  have L: "length [0, 1, 1 :: uint32] = length (options (polls st_finalized ! 0))"
    "length [1, 1, 0 :: uint32] = length (options (polls st_finalized ! 0))"
    by simp_all
  note T = publishResults_fail_closed[OF reachable_finalized P]
  have k1: "\<not> kmsVerifier mock (tallies (polls st_finalized ! 0)) [0, 1, 1] []"
    by (simp add: mock_def)
  have k2: "\<not> kmsVerifier mock (tallies (polls st_finalized ! 0)) [1, 1, 0] [1]"
    unfolding mock_def fhe.simps sample_tallies by simp
  have k3: "kmsVerifier mock (tallies (polls st_finalized ! 0)) [0, 1, 1] [1]"
    unfolding mock_def fhe.simps sample_tallies by simp
  from T[OF L(1), of "[]" "at_time deployer 404", THEN conjunct1, rule_format, OF k1]
  have 1: "publishResults mock (at_time deployer 404) 0 [0, 1, 1] [] st_finalized
     = Inl InvalidDecryptionProof"
    by (rule conjunct1)
  note T2 = T[OF L(2), of "[1]" "at_time deployer 404", THEN conjunct1, rule_format, OF k2]
  from T2 have 2: "publishResults mock (at_time deployer 404) 0 [1, 1, 0] [1] st_finalized
     = Inl InvalidDecryptionProof"
    by (rule conjunct1)
  from T2 have 3: "after st_finalized
      (publishResults mock (at_time deployer 404) 0 [1, 1, 0] [1] st_finalized) = st_finalized"
    by blast
  from T2 have 4: "publicResults (polls st_finalized ! 0) = []"
    "\<not> resultsPublished (polls st_finalized ! 0)"
    unfolding 3 by blast+
  from T[OF L(1), of "[1]" "at_time deployer 404", THEN conjunct2, THEN conjunct2,
      rule_format, OF run_publish]
  have 5: "publicResults (polls st_published ! 0) = [0, 1, 1]"
    by blast
  from 1 2 3 4 5 run_publish show ?thesis by blast
qed

subsection \<open>C3: a choice out of range\<close>

text \<open>
  C3: in a reachable state, a \<^verbatim>\<open>castVote\<close> that passes the four checks and whose
  encrypted choice hides a value that is not below the number of options succeeds. The
  receipt of the caller is recorded, so that every later vote of the caller in this
  poll reverts; the event is emitted; and every tally hides the value it hid before.
\<close>

theorem castVote_out_of_range:
  assumes "reachable env st" and "pollId < length (polls st)"
    and "startTime (polls st ! pollId) \<le> block_timestamp c"
    and "block_timestamp c < endTime (polls st ! pollId)"
    and "\<not> finalized (polls st ! pollId)" and "\<not> votes st pollId (msg_sender c)"
    and "inputVerifier env h p (msg_sender c) = Some v"
    and "length (options (polls st ! pollId)) \<le> unat v"
  shows "\<exists>st'. castVote env c pollId h p st = Inr st' \<and>
           votes st' pollId (msg_sender c) \<and>
           hasUserVoted pollId (msg_sender c) st' = Inr True \<and>
           length (tallies (polls st' ! pollId)) = length (tallies (polls st ! pollId)) \<and>
           map clear (tallies (polls st' ! pollId)) = map clear (tallies (polls st ! pollId)) \<and>
           events st' = events st @ [VoteSubmitted pollId (msg_sender c)] \<and>
           (\<forall>c2 h2 p2. msg_sender c2 = msg_sender c \<longrightarrow>
              (\<exists>e. castVote env c2 pollId h2 p2 st' = Inl e))"
proof -
  let ?P = "polls st ! pollId"
  let ?st = "st\<lparr>votes := (votes st)(pollId := (votes st pollId)(msg_sender c := True)),
             polls := (polls st)[pollId := votedPoll (FHE_asEuint32 v) ?P],
             events := events st @ [VoteSubmitted pollId (msg_sender c)]\<rparr>"
  have ok: "poll_ok ?P"
    using assms(1,2) by (blast intro: state_ok_nth reachable_state_ok)
  then have len: "length (tallies ?P) = length (options ?P)" and n: "length (options ?P) \<le> 4"
    by (simp_all add: poll_ok_def)
  have r: "castVote env c pollId h p st = Inr ?st"
    using castVote_Inr[OF assms(2-7)] len by simp
  have P': "polls ?st ! pollId = votedPoll (FHE_asEuint32 v) ?P"
    using assms(2) by simp
  have cells: "map clear (tallies (votedPoll (FHE_asEuint32 v) ?P)) = map clear (tallies ?P)"
  proof (rule nth_equalityI)
    show "length (map clear (tallies (votedPoll (FHE_asEuint32 v) ?P))) =
        length (map clear (tallies ?P))"
      by simp
  next
    fix i assume "i < length (map clear (tallies (votedPoll (FHE_asEuint32 v) ?P)))"
    then have i: "i < length (options ?P)" using len by simp
    then have "i \<noteq> unat v" using assms(8) by simp
    then show "map clear (tallies (votedPoll (FHE_asEuint32 v) ?P)) ! i = map clear (tallies ?P) ! i"
      using clear_votedPoll_nth[OF i len n, of v] i len by simp
  qed
  have again: "\<exists>e. castVote env c2 pollId h2 p2 ?st = Inl e" if "msg_sender c2 = msg_sender c"
    for c2 h2 p2
    using that assms(2) by (simp add: castVote_def Let_def)
  have "votes ?st pollId (msg_sender c)"
    "hasUserVoted pollId (msg_sender c) ?st = Inr True"
    "length (tallies (polls ?st ! pollId)) = length (tallies ?P)"
    "map clear (tallies (polls ?st ! pollId)) = map clear (tallies ?P)"
    "events ?st = events st @ [VoteSubmitted pollId (msg_sender c)]"
    unfolding P' using assms(2) cells by (simp_all add: hasUserVoted_def)
  with r again show ?thesis by blast
qed

theorem castVote_out_of_range_witness:
  "castVote mock (at_time voterB 103) 0 3 [1] st_votedA =
     Inr (st_votedA\<lparr>votes := (votes st_votedA)(0 := (votes st_votedA 0)(voterB := True)),
            polls := [votedPoll (FHE_asEuint32 3) (votedPoll (FHE_asEuint32 1) samplePoll)],
            events := events st_votedA @ [VoteSubmitted 0 voterB]\<rparr>) \<and>
   map clear (tallies (votedPoll (FHE_asEuint32 3) (votedPoll (FHE_asEuint32 1) samplePoll)))
     = map clear (tallies (votedPoll (FHE_asEuint32 1) samplePoll))"
proof -
  have v: "inputVerifier mock 3 [1] (msg_sender (at_time voterB 103)) = Some 3"
    by (simp add: mock_def)
  have pre: "0 < length (polls st_votedA)"
    "startTime (polls st_votedA ! 0) \<le> block_timestamp (at_time voterB 103)"
    "block_timestamp (at_time voterB 103) < endTime (polls st_votedA ! 0)"
    "\<not> finalized (polls st_votedA ! 0)" "\<not> votes st_votedA 0 (msg_sender (at_time voterB 103))"
    by simp_all
  have n: "length (options (polls st_votedA ! 0)) \<le> unat (3 :: uint32)"
    by simp
  from castVote_out_of_range[OF reachable_votedA pre v n]
  obtain st' where r: "castVote mock (at_time voterB 103) 0 3 [1] st_votedA = Inr st'"
    and c: "map clear (tallies (polls st' ! 0)) = map clear (tallies (polls st_votedA ! 0))"
    by blast
  have e: "castVote mock (at_time voterB 103) 0 3 [1] st_votedA =
     Inr (st_votedA\<lparr>votes := (votes st_votedA)(0 := (votes st_votedA 0)(voterB := True)),
            polls := [votedPoll (FHE_asEuint32 3) (votedPoll (FHE_asEuint32 1) samplePoll)],
            events := events st_votedA @ [VoteSubmitted 0 voterB]\<rparr>)"
    by (subst castVote_Inr[OF pre v]) simp_all
  from r e have s: "st' =
      st_votedA\<lparr>votes := (votes st_votedA)(0 := (votes st_votedA 0)(voterB := True)),
            polls := [votedPoll (FHE_asEuint32 3) (votedPoll (FHE_asEuint32 1) samplePoll)],
            events := events st_votedA @ [VoteSubmitted 0 voterB]\<rparr>"
    by simp
  from c e show ?thesis unfolding s by simp
qed

subsection \<open>C4: the rejections of castVote\<close>

text \<open>
  C4: \<^verbatim>\<open>castVote\<close> reverts with \<^verbatim>\<open>InvalidPoll\<close> when the poll identifier is not below the
  poll count; otherwise with \<^verbatim>\<open>PollNotActive\<close> when the time is before \<open>startTime\<close> or at
  or after \<open>endTime\<close>; otherwise with \<^verbatim>\<open>PollAlreadyFinalized\<close> when the poll is
  finalized; otherwise with \<^verbatim>\<open>AlreadyVoted\<close> when the caller holds a receipt. A revert
  leaves the state as it was. A successful vote sets the caller's receipt, so that a
  repeat vote of the same caller at any time of the window reverts with
  \<^verbatim>\<open>AlreadyVoted\<close>: directly after the vote, and in every later state when the time
  never decreases.
\<close>

theorem castVote_rejections:
  "(length (polls st) \<le> pollId \<longrightarrow>
      castVote env c pollId h p st = Inl InvalidPoll) \<and>
   (pollId < length (polls st) \<and>
    (block_timestamp c < startTime (polls st ! pollId) \<or>
     endTime (polls st ! pollId) \<le> block_timestamp c) \<longrightarrow>
      castVote env c pollId h p st = Inl PollNotActive) \<and>
   (pollId < length (polls st) \<and> startTime (polls st ! pollId) \<le> block_timestamp c \<and>
    block_timestamp c < endTime (polls st ! pollId) \<and> finalized (polls st ! pollId) \<longrightarrow>
      castVote env c pollId h p st = Inl PollAlreadyFinalized) \<and>
   (pollId < length (polls st) \<and> startTime (polls st ! pollId) \<le> block_timestamp c \<and>
    block_timestamp c < endTime (polls st ! pollId) \<and> \<not> finalized (polls st ! pollId) \<and>
    votes st pollId (msg_sender c) \<longrightarrow>
      castVote env c pollId h p st = Inl AlreadyVoted) \<and>
   (castVote env c pollId h p st = Inl e \<longrightarrow> after st (castVote env c pollId h p st) = st) \<and>
   (reachable env st \<and> castVote env c pollId h p st = Inr st' \<longrightarrow>
      votes st' pollId (msg_sender c) \<and>
      (\<forall>c2 h2 p2. msg_sender c2 = msg_sender c \<and>
         startTime (polls st ! pollId) \<le> block_timestamp c2 \<and>
         block_timestamp c2 < endTime (polls st ! pollId) \<longrightarrow>
         castVote env c2 pollId h2 p2 st' = Inl AlreadyVoted)) \<and>
   (timed_reachable env t st \<and> t \<le> block_timestamp c \<and> pollId < length (polls st) \<and>
    startTime (polls st ! pollId) \<le> block_timestamp c \<and>
    block_timestamp c < endTime (polls st ! pollId) \<and> votes st pollId (msg_sender c) \<longrightarrow>
      castVote env c pollId h p st = Inl AlreadyVoted)"
proof (intro conjI impI)
  assume "reachable env st \<and> castVote env c pollId h p st = Inr st'"
  then have ok: "state_ok st" and r: "castVote env c pollId h p st = Inr st'"
    by (blast intro: reachable_state_ok)+
  from castVote_InrD[OF r] have pre: "pollId < length (polls st)"
    "\<not> finalized (polls st ! pollId)" by blast+
  from castVote_Inr_ok[OF ok r] obtain v where
    st': "st' = st\<lparr>votes := (votes st)(pollId := (votes st pollId)(msg_sender c := True)),
             polls := (polls st)[pollId := votedPoll (FHE_asEuint32 v) (polls st ! pollId)],
             events := events st @ [VoteSubmitted pollId (msg_sender c)]\<rparr>"
    by blast
  show "votes st' pollId (msg_sender c)"
    by (simp add: st')
  show "\<forall>c2 h2 p2. msg_sender c2 = msg_sender c \<and>
         startTime (polls st ! pollId) \<le> block_timestamp c2 \<and>
         block_timestamp c2 < endTime (polls st ! pollId) \<longrightarrow>
         castVote env c2 pollId h2 p2 st' = Inl AlreadyVoted"
    using pre by (simp add: st' castVote_def)
next
  assume a: "timed_reachable env t st \<and> t \<le> block_timestamp c \<and> pollId < length (polls st) \<and>
    startTime (polls st ! pollId) \<le> block_timestamp c \<and>
    block_timestamp c < endTime (polls st ! pollId) \<and> votes st pollId (msg_sender c)"
  then have "ended_ok (block_timestamp c) st"
    by (blast intro: ended_ok_mono timed_reachable_ended_ok)
  with a have "\<not> finalized (polls st ! pollId)"
    by (auto dest: ended_ok_nth)
  with a show "castVote env c pollId h p st = Inl AlreadyVoted"
    by (simp add: castVote_def)
qed (simp_all add: castVote_def)

theorem castVote_rejections_witness:
  "castVote mock (at_time voterA 103) 7 1 [1] st_created = Inl InvalidPoll \<and>
   castVote mock (at_time voterA 101) 0 1 [1] st_created = Inl PollNotActive \<and>
   castVote mock (at_time voterB 403) 0 1 [1] st_finalized = Inl PollNotActive \<and>
   castVote mock (at_time voterB 103) 0 1 [1] st_finalized = Inl PollAlreadyFinalized \<and>
   castVote mock (at_time voterA 103) 0 1 [1] st_votedA = Inl AlreadyVoted \<and>
   after st_votedA (castVote mock (at_time voterA 103) 0 1 [1] st_votedA) = st_votedA \<and>
   castVote mock (at_time voterA 401) 0 2 [1] st_votedA = Inl AlreadyVoted \<and>
   castVote mock (at_time voterA 401) 0 2 [1] st_votedAB = Inl AlreadyVoted"
proof -
  note T = castVote_rejections
  have 1: "castVote mock (at_time voterA 103) 7 1 [1] st_created = Inl InvalidPoll"
    using T[of st_created 7 mock "at_time voterA 103" 1 "[1]", THEN conjunct1] by simp
  have 2: "castVote mock (at_time voterA 101) 0 1 [1] st_created = Inl PollNotActive"
    using T[of st_created 0 mock "at_time voterA 101" 1 "[1]", THEN conjunct2, THEN conjunct1]
    by simp
  have 3: "castVote mock (at_time voterB 403) 0 1 [1] st_finalized = Inl PollNotActive"
    using T[of st_finalized 0 mock "at_time voterB 403" 1 "[1]", THEN conjunct2, THEN conjunct1]
    by simp
  have 4: "castVote mock (at_time voterB 103) 0 1 [1] st_finalized = Inl PollAlreadyFinalized"
    using T[of st_finalized 0 mock "at_time voterB 103" 1 "[1]",
        THEN conjunct2, THEN conjunct2, THEN conjunct1]
    by simp
  have 5: "castVote mock (at_time voterA 103) 0 1 [1] st_votedA = Inl AlreadyVoted"
    using T[of st_votedA 0 mock "at_time voterA 103" 1 "[1]",
        THEN conjunct2, THEN conjunct2, THEN conjunct2, THEN conjunct1]
    by simp
  have 6: "after st_votedA (castVote mock (at_time voterA 103) 0 1 [1] st_votedA) = st_votedA"
    using T[of st_votedA 0 mock "at_time voterA 103" 1 "[1]" AlreadyVoted,
        THEN conjunct2, THEN conjunct2, THEN conjunct2, THEN conjunct2, THEN conjunct1] 5
    by simp
  have 7: "castVote mock (at_time voterA 401) 0 2 [1] st_votedA = Inl AlreadyVoted"
    using T[of st_created 0 mock "at_time voterA 103" 1 "[1]" AlreadyVoted st_votedA,
        THEN conjunct2, THEN conjunct2, THEN conjunct2, THEN conjunct2, THEN conjunct2,
        THEN conjunct1, rule_format, OF conjI[OF reachable_created run_voteA],
        THEN conjunct2, rule_format, of "at_time voterA 401" 2 "[1]"]
    by simp
  have 8: "castVote mock (at_time voterA 401) 0 2 [1] st_votedAB = Inl AlreadyVoted"
    using T[of st_votedAB 0 mock "at_time voterA 401" 2 "[1]" AlreadyVoted st_votedAB 103,
        THEN conjunct2, THEN conjunct2, THEN conjunct2, THEN conjunct2, THEN conjunct2,
        THEN conjunct2] timed_votedAB
    by simp
  from 1 2 3 4 5 6 7 8 show ?thesis by blast
qed

subsection \<open>C5: createPoll\<close>

text \<open>
  C5: with between 2 and 4 options, \<open>startTime < endTime\<close> and \<open>endTime\<close> after the
  current time, \<^verbatim>\<open>createPoll\<close> succeeds: it appends one poll, with the given labels as
  options and one encrypted counter per option, each hiding 0 and readable by the
  contract, it keeps the earlier polls and the receipts, and it returns the poll count
  before the append, which is 0 at deployment. With fewer than 2 or more than 4 options
  it reverts with \<^verbatim>\<open>InvalidOptions\<close>. With \<open>startTime \<ge> endTime\<close> or \<open>endTime\<close> not after
  the current time it reverts too: with \<^verbatim>\<open>InvalidWindow\<close> when the number of options
  is in range, the check of the options coming first. A revert leaves the state as it
  was.
\<close>

theorem createPoll_spec:
  "(2 \<le> length opts \<and> length opts \<le> 4 \<and> startT < endT \<and> block_timestamp c < endT \<longrightarrow>
      (\<exists>st' poll. createPoll c ttl opts startT endT st = Inr (st', getPollCount st) \<and>
         polls st' = polls st @ [poll] \<and> votes st' = votes st \<and>
         events st' = events st @ [PollCreated (getPollCount st) ttl startT endT] \<and>
         title poll = ttl \<and> options poll = opts \<and>
         startTime poll = startT \<and> endTime poll = endT \<and> creator poll = msg_sender c \<and>
         \<not> finalized poll \<and> \<not> resultsPublished poll \<and>
         publicResults poll = [] \<and> publicDecryptionProof poll = [] \<and>
         length (tallies poll) = length (options poll) \<and>
         (\<forall>t \<in> set (tallies poll). clear t = 0 \<and> allowedThis t \<and> \<not> publiclyDecryptable t))) \<and>
   (length opts < 2 \<or> 4 < length opts \<longrightarrow>
      createPoll c ttl opts startT endT st = Inl InvalidOptions) \<and>
   (endT \<le> startT \<or> endT \<le> block_timestamp c \<longrightarrow>
      createPoll c ttl opts startT endT st =
        Inl (if length opts < 2 \<or> 4 < length opts then InvalidOptions else InvalidWindow)) \<and>
   (createPoll c ttl opts startT endT st = Inl e \<longrightarrow>
      after st (map_sum id fst (createPoll c ttl opts startT endT st)) = st) \<and>
   getPollCount deployed = 0"
proof (intro conjI impI)
  assume a: "2 \<le> length opts \<and> length opts \<le> 4 \<and> startT < endT \<and> block_timestamp c < endT"
  let ?poll = "newPoll c ttl opts startT endT"
  let ?st = "st\<lparr>polls := polls st @ [?poll],
             events := events st @ [PollCreated (length (polls st)) ttl startT endT]\<rparr>"
  have "createPoll c ttl opts startT endT st = Inr (?st, getPollCount st)"
    using a by (simp add: createPoll_Inr getPollCount_def)
  moreover have "polls ?st = polls st @ [?poll]" "votes ?st = votes st"
    "events ?st = events st @ [PollCreated (getPollCount st) ttl startT endT]"
    by (simp_all add: getPollCount_def)
  moreover have "title ?poll = ttl" "options ?poll = opts" "startTime ?poll = startT"
    "endTime ?poll = endT" "creator ?poll = msg_sender c" "\<not> finalized ?poll"
    "\<not> resultsPublished ?poll" "publicResults ?poll = []" "publicDecryptionProof ?poll = []"
    "length (tallies ?poll) = length (options ?poll)"
    "\<forall>t \<in> set (tallies ?poll). clear t = 0 \<and> allowedThis t \<and> \<not> publiclyDecryptable t"
    by (simp_all add: newPoll_def FHE_allowThis_def FHE_asEuint32_def)
  ultimately show "\<exists>st' poll. createPoll c ttl opts startT endT st = Inr (st', getPollCount st) \<and>
         polls st' = polls st @ [poll] \<and> votes st' = votes st \<and>
         events st' = events st @ [PollCreated (getPollCount st) ttl startT endT] \<and>
         title poll = ttl \<and> options poll = opts \<and>
         startTime poll = startT \<and> endTime poll = endT \<and> creator poll = msg_sender c \<and>
         \<not> finalized poll \<and> \<not> resultsPublished poll \<and>
         publicResults poll = [] \<and> publicDecryptionProof poll = [] \<and>
         length (tallies poll) = length (options poll) \<and>
         (\<forall>t \<in> set (tallies poll). clear t = 0 \<and> allowedThis t \<and> \<not> publiclyDecryptable t)"
    by blast
qed (auto simp: createPoll_def getPollCount_def deployed_def)

theorem createPoll_spec_witness:
  "createPoll (at_time deployer 100) ''Favorite language'' sampleOptions 102 402 deployed
     = Inr (st_created, 0) \<and>
   createPoll (at_time deployer 100) ''one'' [''a''] 102 402 deployed = Inl InvalidOptions \<and>
   createPoll (at_time deployer 100) ''five'' [''a'', ''b'', ''c'', ''d'', ''e''] 102 402 deployed
     = Inl InvalidOptions \<and>
   createPoll (at_time deployer 100) ''t'' sampleOptions 402 402 st_created = Inl InvalidWindow \<and>
   createPoll (at_time deployer 100) ''t'' sampleOptions 50 100 st_created = Inl InvalidWindow \<and>
   createPoll (at_time deployer 100) ''t'' [''a''] 402 402 st_created = Inl InvalidOptions \<and>
   after st_created
     (map_sum id fst (createPoll (at_time deployer 100) ''t'' sampleOptions 50 100 st_created))
     = st_created"
proof -
  note T = createPoll_spec
  have "\<exists>st' poll.
      createPoll (at_time deployer 100) ''Favorite language'' sampleOptions 102 402 deployed
        = Inr (st', getPollCount deployed) \<and> polls st' = polls deployed @ [poll]"
    using T[of sampleOptions 102 402 "at_time deployer 100" "''Favorite language''" deployed,
        THEN conjunct1]
    by auto
  then have 1: "createPoll (at_time deployer 100) ''Favorite language'' sampleOptions 102 402 deployed
     = Inr (st_created, 0)"
    by (simp add: run_create)
  have 2: "createPoll (at_time deployer 100) ''one'' [''a''] 102 402 deployed = Inl InvalidOptions"
    using T[of "[''a'']" 102 402 "at_time deployer 100" "''one''" deployed,
        THEN conjunct2, THEN conjunct1]
    by simp
  have 3: "createPoll (at_time deployer 100) ''five'' [''a'', ''b'', ''c'', ''d'', ''e''] 102 402
      deployed = Inl InvalidOptions"
    using T[of "[''a'', ''b'', ''c'', ''d'', ''e'']" 102 402 "at_time deployer 100" "''five''"
        deployed, THEN conjunct2, THEN conjunct1]
    by simp
  have 4: "createPoll (at_time deployer 100) ''t'' sampleOptions 402 402 st_created
      = Inl InvalidWindow"
    using T[of sampleOptions 402 402 "at_time deployer 100" "''t''" st_created,
        THEN conjunct2, THEN conjunct2, THEN conjunct1]
    by simp
  have 5: "createPoll (at_time deployer 100) ''t'' sampleOptions 50 100 st_created
      = Inl InvalidWindow"
    using T[of sampleOptions 50 100 "at_time deployer 100" "''t''" st_created,
        THEN conjunct2, THEN conjunct2, THEN conjunct1]
    by simp
  have 6: "createPoll (at_time deployer 100) ''t'' [''a''] 402 402 st_created = Inl InvalidOptions"
    using T[of "[''a'']" 402 402 "at_time deployer 100" "''t''" st_created,
        THEN conjunct2, THEN conjunct2, THEN conjunct1]
    by simp
  have 7: "after st_created
     (map_sum id fst (createPoll (at_time deployer 100) ''t'' sampleOptions 50 100 st_created))
     = st_created"
    using T[of sampleOptions 50 100 "at_time deployer 100" "''t''" st_created InvalidWindow,
        THEN conjunct2, THEN conjunct2, THEN conjunct2, THEN conjunct1] 5
    by simp
  from 1 2 3 4 5 6 7 show ?thesis by blast
qed

subsection \<open>C6: finalizePoll\<close>

text \<open>
  C6: on an existing poll \<^verbatim>\<open>finalizePoll\<close> reverts with \<^verbatim>\<open>PollNotFinished\<close> whenever
  the time is before \<open>endTime\<close>. On a finalized poll it always reverts, with
  \<^verbatim>\<open>PollAlreadyFinalized\<close> once the time is at or after \<open>endTime\<close>, which is the case in
  every state reached with a clock that never decreases. Otherwise, for any caller and
  at any time from \<open>endTime\<close> on, it succeeds: the poll is finalized, every tally is
  publicly decryptable and hides the value it hid before, nothing else changes, and a
  second call reverts. The result does not depend on the caller, and no call ever
  resets \<open>finalized\<close>.
\<close>

theorem finalizePoll_spec:
  "pollId < length (polls st) \<Longrightarrow>
   (block_timestamp c < endTime (polls st ! pollId) \<longrightarrow>
      finalizePoll c pollId st = Inl PollNotFinished) \<and>
   (finalized (polls st ! pollId) \<longrightarrow> (\<exists>e. finalizePoll c pollId st = Inl e)) \<and>
   (finalized (polls st ! pollId) \<and> endTime (polls st ! pollId) \<le> block_timestamp c \<longrightarrow>
      finalizePoll c pollId st = Inl PollAlreadyFinalized) \<and>
   (finalized (polls st ! pollId) \<and> timed_reachable env t st \<and> t \<le> block_timestamp c \<longrightarrow>
      finalizePoll c pollId st = Inl PollAlreadyFinalized) \<and>
   (\<not> finalized (polls st ! pollId) \<and> endTime (polls st ! pollId) \<le> block_timestamp c \<longrightarrow>
      (\<exists>st'. finalizePoll c pollId st = Inr st' \<and>
         finalized (polls st' ! pollId) \<and>
         (\<forall>t \<in> set (tallies (polls st' ! pollId)). publiclyDecryptable t) \<and>
         map clear (tallies (polls st' ! pollId)) = map clear (tallies (polls st ! pollId)) \<and>
         polls st' = (polls st)[pollId := (polls st ! pollId)
                       \<lparr>finalized := True, tallies := tallies (polls st' ! pollId)\<rparr>] \<and>
         votes st' = votes st \<and> events st' = events st @ [PollFinalized pollId] \<and>
         (\<forall>c2. \<exists>e. finalizePoll c2 pollId st' = Inl e))) \<and>
   finalizePoll (c\<lparr>msg_sender := a\<rparr>) pollId st = finalizePoll c pollId st \<and>
   (finalized (polls st ! pollId) \<and> reachable env st \<and> call env c2 st st2 \<longrightarrow>
      finalized (polls st2 ! pollId))"
proof (intro conjI impI)
  assume i: "pollId < length (polls st)"
    and a: "finalized (polls st ! pollId) \<and> timed_reachable env t st \<and> t \<le> block_timestamp c"
  then have "ended_ok (block_timestamp c) st"
    by (blast intro: ended_ok_mono timed_reachable_ended_ok)
  with i a have "endTime (polls st ! pollId) \<le> block_timestamp c"
    by (blast intro: ended_ok_nth)
  with i a show "finalizePoll c pollId st = Inl PollAlreadyFinalized"
    by (simp add: finalizePoll_def)
next
  assume i: "pollId < length (polls st)"
    and a: "\<not> finalized (polls st ! pollId) \<and> endTime (polls st ! pollId) \<le> block_timestamp c"
  let ?st = "st\<lparr>polls := (polls st)[pollId := finalizedPoll (polls st ! pollId)],
              events := events st @ [PollFinalized pollId]\<rparr>"
  have r: "finalizePoll c pollId st = Inr ?st"
    using i a by (simp add: finalizePoll_Inr_iff)
  have p: "polls ?st ! pollId = finalizedPoll (polls st ! pollId)"
    using i by simp
  have "finalized (polls ?st ! pollId)"
    "\<forall>t \<in> set (tallies (polls ?st ! pollId)). publiclyDecryptable t"
    "map clear (tallies (polls ?st ! pollId)) = map clear (tallies (polls st ! pollId))"
    "polls ?st = (polls st)[pollId := (polls st ! pollId)
                       \<lparr>finalized := True, tallies := tallies (polls ?st ! pollId)\<rparr>]"
    "votes ?st = votes st" "events ?st = events st @ [PollFinalized pollId]"
    unfolding p
    by (simp_all add: finalizedPoll_def FHE_makePubliclyDecryptable_def i)
  moreover have "\<forall>c2. \<exists>e. finalizePoll c2 pollId ?st = Inl e"
    using i by (simp add: finalizePoll_def Let_def)
  ultimately
  show "\<exists>st'. finalizePoll c pollId st = Inr st' \<and>
         finalized (polls st' ! pollId) \<and>
         (\<forall>t \<in> set (tallies (polls st' ! pollId)). publiclyDecryptable t) \<and>
         map clear (tallies (polls st' ! pollId)) = map clear (tallies (polls st ! pollId)) \<and>
         polls st' = (polls st)[pollId := (polls st ! pollId)
                       \<lparr>finalized := True, tallies := tallies (polls st' ! pollId)\<rparr>] \<and>
         votes st' = votes st \<and> events st' = events st @ [PollFinalized pollId] \<and>
         (\<forall>c2. \<exists>e. finalizePoll c2 pollId st' = Inl e)"
    using r by blast
next
  assume i: "pollId < length (polls st)"
    and a: "finalized (polls st ! pollId) \<and> reachable env st \<and> call env c2 st st2"
  then show "finalized (polls st2 ! pollId)"
    using call_mono[of env c2 st st2 pollId] reachable_state_ok[of env st] by blast
qed (simp_all add: finalizePoll_def Let_def)

theorem finalizePoll_spec_witness:
  "finalizePoll (at_time deployer 401) 0 st_votedAB = Inl PollNotFinished \<and>
   finalizePoll (at_time voterB 402) 0 st_votedAB = Inr st_finalized \<and>
   map clear (tallies (polls st_finalized ! 0)) = map clear (tallies (polls st_votedAB ! 0)) \<and>
   list_all publiclyDecryptable (tallies (polls st_finalized ! 0)) \<and>
   finalizePoll (at_time deployer 404) 0 st_finalized = Inl PollAlreadyFinalized \<and>
   finalized (polls st_published ! 0)"
proof -
  note T = finalizePoll_spec
  have i: "0 < length (polls st_votedAB)" "0 < length (polls st_finalized)"
    by simp_all
  have 1: "finalizePoll (at_time deployer 401) 0 st_votedAB = Inl PollNotFinished"
    using T[OF i(1), of "at_time deployer 401", THEN conjunct1] by simp
  have r: "finalizePoll (at_time voterB 402) 0 st_votedAB = Inr st_finalized"
    using run_finalize
      T[OF i(1), of "at_time deployer 403" _ _ voterB, THEN conjunct2, THEN conjunct2,
        THEN conjunct2, THEN conjunct2, THEN conjunct2, THEN conjunct1]
    by (simp add: finalizePoll_Inr_iff)
  have "\<exists>st'. finalizePoll (at_time voterB 402) 0 st_votedAB = Inr st' \<and>
         finalized (polls st' ! 0) \<and>
         (\<forall>t \<in> set (tallies (polls st' ! 0)). publiclyDecryptable t) \<and>
         map clear (tallies (polls st' ! 0)) = map clear (tallies (polls st_votedAB ! 0))"
    using T[OF i(1), of "at_time voterB 402", THEN conjunct2, THEN conjunct2,
        THEN conjunct2, THEN conjunct2, THEN conjunct1]
    by auto
  then have 2: "map clear (tallies (polls st_finalized ! 0)) = map clear (tallies (polls st_votedAB ! 0))"
    and 3: "list_all publiclyDecryptable (tallies (polls st_finalized ! 0))"
    unfolding r by (auto simp: list_all_iff)
  have 4: "finalizePoll (at_time deployer 404) 0 st_finalized = Inl PollAlreadyFinalized"
    using T[OF i(2), of "at_time deployer 404" mock 403, THEN conjunct2, THEN conjunct2,
        THEN conjunct2, THEN conjunct1] timed_finalized
    by simp
  have 5: "finalized (polls st_published ! 0)"
    using T[OF i(2), of _ mock _ _ "at_time deployer 404" st_published, THEN conjunct2,
        THEN conjunct2, THEN conjunct2, THEN conjunct2, THEN conjunct2, THEN conjunct2]
      reachable_finalized call_publish[OF run_publish]
    by simp
  from 1 r 2 3 4 5 show ?thesis by blast
qed

subsection \<open>C7: the rejections of publishResults\<close>

text \<open>
  C7: on an existing poll \<^verbatim>\<open>publishResults\<close> reverts with \<^verbatim>\<open>PollNotFinished\<close> when the
  poll is not finalized, with \<^verbatim>\<open>ResultsAlreadyPublished\<close> when its results are
  published, and with \<^verbatim>\<open>MismatchedResults\<close> when the number of clear tallies is not
  the number of options, whatever the tallies and the proof are. The checks come in that
  order and before the proof is verified: the verifier decides only when all three
  pass. A revert leaves the state as it was, and after a successful publication every
  further publication for the poll reverts with \<^verbatim>\<open>ResultsAlreadyPublished\<close>.
\<close>

theorem publishResults_rejections:
  "pollId < length (polls st) \<Longrightarrow>
   (\<not> finalized (polls st ! pollId) \<longrightarrow>
      publishResults env c pollId cs dproof st = Inl PollNotFinished) \<and>
   (finalized (polls st ! pollId) \<and> resultsPublished (polls st ! pollId) \<longrightarrow>
      publishResults env c pollId cs dproof st = Inl ResultsAlreadyPublished) \<and>
   (reachable env st \<and> resultsPublished (polls st ! pollId) \<longrightarrow>
      publishResults env c pollId cs dproof st = Inl ResultsAlreadyPublished) \<and>
   (finalized (polls st ! pollId) \<and> \<not> resultsPublished (polls st ! pollId) \<and>
    length cs \<noteq> length (options (polls st ! pollId)) \<longrightarrow>
      publishResults env c pollId cs dproof st = Inl MismatchedResults) \<and>
   (finalized (polls st ! pollId) \<and> \<not> resultsPublished (polls st ! pollId) \<and>
    length cs = length (options (polls st ! pollId)) \<longrightarrow>
      (kmsVerifier env (tallies (polls st ! pollId)) cs dproof \<longrightarrow>
         (\<exists>st'. publishResults env c pollId cs dproof st = Inr st')) \<and>
      (\<not> kmsVerifier env (tallies (polls st ! pollId)) cs dproof \<longrightarrow>
         publishResults env c pollId cs dproof st = Inl InvalidDecryptionProof)) \<and>
   (publishResults env c pollId cs dproof st = Inl e \<longrightarrow>
      after st (publishResults env c pollId cs dproof st) = st) \<and>
   (publishResults env c pollId cs dproof st = Inr st' \<longrightarrow>
      (\<forall>c2 cs2 dproof2. publishResults env c2 pollId cs2 dproof2 st' = Inl ResultsAlreadyPublished))"
proof (intro conjI impI)
  assume i: "pollId < length (polls st)"
    and "reachable env st \<and> resultsPublished (polls st ! pollId)"
  then have "poll_ok (polls st ! pollId)" and "resultsPublished (polls st ! pollId)"
    by (blast intro: state_ok_nth reachable_state_ok)+
  then show "publishResults env c pollId cs dproof st = Inl ResultsAlreadyPublished"
    using i by (simp add: publishResults_def poll_ok_def)
next
  assume "pollId < length (polls st)"
    and "publishResults env c pollId cs dproof st = Inr st'"
  then show "\<forall>c2 cs2 dproof2. publishResults env c2 pollId cs2 dproof2 st' = Inl ResultsAlreadyPublished"
    by (simp add: publishResults_Inr_iff) (simp add: publishResults_def)
qed (simp_all add: publishResults_def handles_all FHE_checkSignatures_def)

theorem publishResults_rejections_witness:
  "publishResults mock (at_time deployer 103) 0 [0, 1, 1] [1] st_votedAB = Inl PollNotFinished \<and>
   publishResults mock (at_time deployer 405) 0 [0, 1, 1] [1] st_published
     = Inl ResultsAlreadyPublished \<and>
   publishResults mock (at_time deployer 404) 0 [0, 1] [1] st_finalized = Inl MismatchedResults \<and>
   publishResults mock (at_time deployer 404) 0 [5, 5, 5, 5] [] st_finalized
     = Inl MismatchedResults \<and>
   after st_finalized (publishResults mock (at_time deployer 404) 0 [0, 1] [1] st_finalized)
     = st_finalized \<and>
   publishResults mock (at_time voterA 500) 0 [7, 7, 7] [2] st_published
     = Inl ResultsAlreadyPublished"
proof -
  note T = publishResults_rejections
  have 1: "publishResults mock (at_time deployer 103) 0 [0, 1, 1] [1] st_votedAB
      = Inl PollNotFinished"
    using T[of 0 st_votedAB mock "at_time deployer 103" "[0, 1, 1]" "[1]", THEN conjunct1]
    by simp
  have 2: "publishResults mock (at_time deployer 405) 0 [0, 1, 1] [1] st_published
      = Inl ResultsAlreadyPublished"
    using T[of 0 st_published mock "at_time deployer 405" "[0, 1, 1]" "[1]",
        THEN conjunct2, THEN conjunct2, THEN conjunct1] reachable_published
    by simp
  have 3: "publishResults mock (at_time deployer 404) 0 [0, 1] [1] st_finalized
      = Inl MismatchedResults"
    using T[of 0 st_finalized mock "at_time deployer 404" "[0, 1]" "[1]",
        THEN conjunct2, THEN conjunct2, THEN conjunct2, THEN conjunct1]
    by simp
  have 4: "publishResults mock (at_time deployer 404) 0 [5, 5, 5, 5] [] st_finalized
      = Inl MismatchedResults"
    using T[of 0 st_finalized mock "at_time deployer 404" "[5, 5, 5, 5]" "[]",
        THEN conjunct2, THEN conjunct2, THEN conjunct2, THEN conjunct1]
    by simp
  have 5: "after st_finalized (publishResults mock (at_time deployer 404) 0 [0, 1] [1] st_finalized)
      = st_finalized"
    using T[of 0 st_finalized mock "at_time deployer 404" "[0, 1]" "[1]" MismatchedResults,
        THEN conjunct2, THEN conjunct2, THEN conjunct2, THEN conjunct2, THEN conjunct2,
        THEN conjunct1] 3
    by simp
  have 6: "publishResults mock (at_time voterA 500) 0 [7, 7, 7] [2] st_published
      = Inl ResultsAlreadyPublished"
    using T[of 0 st_finalized mock "at_time deployer 404" "[0, 1, 1]" "[1]" _ st_published,
        THEN conjunct2, THEN conjunct2, THEN conjunct2, THEN conjunct2, THEN conjunct2,
        THEN conjunct2] run_publish
    by simp
  from 1 2 3 4 5 6 show ?thesis by blast
qed

subsection \<open>C8: the flags only rise\<close>

text \<open>
  C8: in every state reachable by calls of \<^verbatim>\<open>createPoll\<close>, \<^verbatim>\<open>castVote\<close>,
  \<^verbatim>\<open>finalizePoll\<close> and \<^verbatim>\<open>publishResults\<close>, with any senders and timestamps, a poll
  whose results are published is finalized. Along any further sequence of calls every
  poll stays at its index, and a flag \<open>finalized\<close> or \<open>resultsPublished\<close> that is set
  stays set. The converse of the implication fails: a state with a finalized poll whose
  results are not published is reachable.
\<close>

theorem flags_monotone:
  "(reachable env st \<and> i < length (polls st) \<and> resultsPublished (polls st ! i) \<longrightarrow>
      finalized (polls st ! i)) \<and>
   (reachable env st \<and> rtranclp (step env) st st' \<and> i < length (polls st) \<longrightarrow>
      i < length (polls st') \<and>
      (finalized (polls st ! i) \<longrightarrow> finalized (polls st' ! i)) \<and>
      (resultsPublished (polls st ! i) \<longrightarrow> resultsPublished (polls st' ! i))) \<and>
   (\<exists>s. reachable env s \<and>
      (\<exists>j. j < length (polls s) \<and> finalized (polls s ! j) \<and> \<not> resultsPublished (polls s ! j)))"
proof (intro conjI impI)
  assume "reachable env st \<and> i < length (polls st) \<and> resultsPublished (polls st ! i)"
  then have "poll_ok (polls st ! i)" "resultsPublished (polls st ! i)"
    by (blast intro: state_ok_nth reachable_state_ok)+
  then show "finalized (polls st ! i)"
    by (simp add: poll_ok_def)
next
  assume a: "reachable env st \<and> rtranclp (step env) st st' \<and> i < length (polls st)"
  then have m: "i < length (polls st') \<and>
         (finalized (polls st ! i) \<longrightarrow> finalized (polls st' ! i)) \<and>
         (resultsPublished (polls st ! i) \<longrightarrow> resultsPublished (polls st' ! i))"
    using steps_mono[of env st st' i] by blast
  from m show "i < length (polls st')" by blast
  { assume "finalized (polls st ! i)"
    with m show "finalized (polls st' ! i)" by blast }
  { assume "resultsPublished (polls st ! i)"
    with m show "resultsPublished (polls st' ! i)" by blast }
next
  show "\<exists>s. reachable env s \<and>
      (\<exists>j. j < length (polls s) \<and> finalized (polls s ! j) \<and> \<not> resultsPublished (polls s ! j))"
    by (rule finalized_unpublished_reachable)
qed

theorem flags_monotone_witness:
  "finalized (polls st_published ! 0) \<and> resultsPublished (polls st_published ! 0) \<and>
   finalized (polls st_finalized ! 0) \<and> \<not> resultsPublished (polls st_finalized ! 0) \<and>
   rtranclp (step mock) st_finalized st_published \<and>
   rtranclp (step mock) st_created st_published \<and>
   \<not> finalized (polls st_created ! 0)"
proof -
  note T = flags_monotone
  have a: "step mock st_created st_votedA"
    unfolding step_def using call_vote[OF run_voteA] by (rule exI)
  have b: "step mock st_votedA st_votedAB"
    unfolding step_def using call_vote[OF run_voteB] by (rule exI)
  have c: "step mock st_votedAB st_finalized"
    unfolding step_def using call_finalize[OF run_finalize] by (rule exI)
  have d: "step mock st_finalized st_published"
    unfolding step_def using call_publish[OF run_publish] by (rule exI)
  have s2: "rtranclp (step mock) st_finalized st_published"
    using d by (rule r_into_rtranclp)
  have s3: "rtranclp (step mock) st_created st_published"
    using a b c d by (meson rtranclp.rtrancl_into_rtrancl r_into_rtranclp)
  have p: "resultsPublished (polls st_published ! 0)" by simp
  have 1: "finalized (polls st_published ! 0)"
    using T[of mock st_published 0, THEN conjunct1] reachable_published p by simp
  have 2: "finalized (polls st_finalized ! 0)" "\<not> resultsPublished (polls st_finalized ! 0)"
    "\<not> finalized (polls st_created ! 0)"
    by simp_all
  have 3: "finalized (polls st_published ! 0)"
    using T[of mock st_finalized 0 st_published, THEN conjunct2, THEN conjunct1]
      reachable_finalized s2 2(1)
    by simp
  from 1 2 3 p s2 s3 show ?thesis by blast
qed

subsection \<open>C9: the finalized branch of castVote\<close>

text \<open>
  C9: when the time never decreases and every call is made at the current time, a
  finalized poll of a reachable state is past its end: the current time is at least its
  \<open>endTime\<close>. So a \<^verbatim>\<open>castVote\<close> on a finalized poll, now or later, fails the check of
  the window first and reverts with \<^verbatim>\<open>PollNotActive\<close>, and no \<^verbatim>\<open>castVote\<close> ever
  reverts with \<^verbatim>\<open>PollAlreadyFinalized\<close>.
\<close>

theorem finalized_branch_unreachable:
  "timed_reachable env t st \<Longrightarrow>
   (pollId < length (polls st) \<and> finalized (polls st ! pollId) \<longrightarrow>
      endTime (polls st ! pollId) \<le> t) \<and>
   (t \<le> block_timestamp c \<and> pollId < length (polls st) \<and> finalized (polls st ! pollId) \<longrightarrow>
      castVote env c pollId h p st = Inl PollNotActive) \<and>
   (t \<le> block_timestamp c \<longrightarrow> castVote env c pollId h p st \<noteq> Inl PollAlreadyFinalized)"
proof -
  assume tr: "timed_reachable env t st"
  then have e: "ended_ok t st"
    by (rule timed_reachable_ended_ok)
  have 1: "endTime (polls st ! pollId) \<le> t"
    if "pollId < length (polls st)" "finalized (polls st ! pollId)"
    using ended_ok_nth[OF e that] .
  have 2: "castVote env c pollId h p st = Inl PollNotActive"
    if "t \<le> block_timestamp c" "pollId < length (polls st)" "finalized (polls st ! pollId)"
    using 1[OF that(2,3)] that by (simp add: castVote_def)
  have 3: "castVote env c pollId h p st \<noteq> Inl PollAlreadyFinalized" if "t \<le> block_timestamp c"
  proof (cases "pollId < length (polls st)")
    case False
    then show ?thesis by (simp add: castVote_def)
  next
    case True
    then have "poll_ok (polls st ! pollId)"
      using tr by (blast intro: state_ok_nth reachable_state_ok timed_reachable_reachable)
    then have loop: "castVote_loop ch 0 (polls st ! pollId) = Inr (votedPoll ch (polls st ! pollId))"
      for ch
      by (simp add: castVote_loop_0 poll_ok_def)
    show ?thesis
    proof (cases "finalized (polls st ! pollId)")
      case True
      with 2 that \<open>pollId < length (polls st)\<close> show ?thesis by simp
    next
      case False
      then show ?thesis
        using \<open>pollId < length (polls st)\<close>
        by (simp add: castVote_def Let_def FHE_fromExternal_def loop split: option.splits)
    qed
  qed
  from 1 2 3 show ?thesis by blast
qed

theorem finalized_branch_unreachable_witness:
  "endTime (polls st_finalized ! 0) \<le> 403 \<and> finalized (polls st_finalized ! 0) \<and>
   castVote mock (at_time voterB 403) 0 1 [1] st_finalized = Inl PollNotActive \<and>
   castVote mock (at_time deployer 500) 0 0 [1] st_finalized \<noteq> Inl PollAlreadyFinalized"
proof -
  note T = finalized_branch_unreachable[OF timed_finalized]
  have f: "finalized (polls st_finalized ! 0)" by simp
  have 1: "endTime (polls st_finalized ! 0) \<le> 403"
    using T[of 0, THEN conjunct1] by simp
  have 2: "castVote mock (at_time voterB 403) 0 1 [1] st_finalized = Inl PollNotActive"
    using T[of 0 "at_time voterB 403" 1 "[1]", THEN conjunct2, THEN conjunct1] by simp
  have 3: "castVote mock (at_time deployer 500) 0 0 [1] st_finalized \<noteq> Inl PollAlreadyFinalized"
    using T[of 0 "at_time deployer 500" 0 "[1]", THEN conjunct2, THEN conjunct2] by simp
  from f 1 2 3 show ?thesis by blast
qed

subsection \<open>C10: reading unpublished results\<close>

text \<open>
  C10: in a reachable state \<^verbatim>\<open>getPublishedResults\<close> on an existing poll whose results
  are not published does not fail: it returns an empty array of results and empty proof
  bytes. It returns for every existing poll, and its only failure is \<^verbatim>\<open>InvalidPoll\<close>,
  for an identifier that is not below the poll count.
\<close>

theorem getPublishedResults_unpublished:
  "reachable env st \<Longrightarrow>
   (pollId < length (polls st) \<and> \<not> resultsPublished (polls st ! pollId) \<longrightarrow>
      getPublishedResults pollId st = Inr ([], [])) \<and>
   (pollId < length (polls st) \<longrightarrow> (\<exists>r. getPublishedResults pollId st = Inr r)) \<and>
   (getPublishedResults pollId st = Inl e \<longleftrightarrow> e = InvalidPoll \<and> length (polls st) \<le> pollId)"
proof (intro conjI impI)
  assume r: "reachable env st"
    and "pollId < length (polls st) \<and> \<not> resultsPublished (polls st ! pollId)"
  then have "poll_ok (polls st ! pollId)" and "\<not> resultsPublished (polls st ! pollId)"
    and "pollId < length (polls st)"
    by (blast intro: state_ok_nth reachable_state_ok)+
  then show "getPublishedResults pollId st = Inr ([], [])"
    by (simp add: getPublishedResults_def poll_ok_def)
qed (auto simp: getPublishedResults_def Let_def)

theorem getPublishedResults_unpublished_witness:
  "getPublishedResults 0 st_created = Inr ([], []) \<and>
   getPublishedResults 0 st_finalized = Inr ([], []) \<and>
   (\<exists>r. getPublishedResults 0 st_published = Inr r) \<and>
   getPublishedResults 1 st_finalized = Inl InvalidPoll"
proof -
  note T = getPublishedResults_unpublished
  have 1: "getPublishedResults 0 st_created = Inr ([], [])"
    using T[OF reachable_created, of 0, THEN conjunct1] by simp
  have 2: "getPublishedResults 0 st_finalized = Inr ([], [])"
    using T[OF reachable_finalized, of 0, THEN conjunct1] by simp
  have 3: "\<exists>r. getPublishedResults 0 st_published = Inr r"
    using T[OF reachable_published, of 0, THEN conjunct2, THEN conjunct1] by simp
  have 4: "getPublishedResults 1 st_finalized = Inl InvalidPoll"
    using T[OF reachable_finalized, of 1 InvalidPoll, THEN conjunct2, THEN conjunct2] by simp
  from 1 2 3 4 show ?thesis by blast
qed

end
